theory Spec2Isabelle
  imports
    Complex_Main
    "HOL-Library.Char_ord"
    "HOL-Library.List_Lexorder"
    "HOL-Library.Product_Lexorder"
    "HOL-Library.Multiset"
begin

section \<open>Site evaluation of the evacuation-centre siting system\<close>

text \<open>
  The development embeds the function \<open>site_evaluation_view\<close> of \<open>src/app.py\<close>: the weight
  sliders, the weight-sum diagnostic, the loading of the facility file, the test that decides
  whether the evaluation is run again, and the count of recommended sites shown.

  A Python float is taken as the rational it stands for (\<^typ>\<open>rat\<close>): a slider position is
  the multiple of 0.05 it shows. Where the view computes with floats itself, in the sum of
  the weights and its distance from 1, the two operations on doubles are parameters
  (\<open>float_sum\<close> and \<open>float_sub\<close> below) and the literal \<open>0.01\<close> is the double it denotes.

  A Python dictionary is an association list in insertion order; \<open>st.session_state\<close> is a
  record whose fields are \<open>None\<close> where the key is absent or holds \<open>None\<close> (the view tests
  both in the same breath: \<open>'k' not in st.session_state or st.session_state.k is None\<close>).
\<close>

subsection \<open>Data\<close>

text \<open>
  One row of the facility table: the columns the view reads (lines 454 to 463), and the
  \<open>id\<close> of the data model; a missing value of a criterion is \<open>None\<close>.
\<close>

record site =
  site_id :: nat
  site_name :: string
  latitude :: rat
  longitude :: rat
  population_density :: "rat option"
  accessibility :: "rat option"
  risk_level :: "rat option"
  facility_capacity :: "rat option"
  service_coverage :: "rat option"

type_synonym weight_dict = "(string \<times> rat) list"

datatype error =
    StreamlitAPIException
  | InvalidWeightError string rat
  | EmptyBatchError
  | NoFacilityFiles
  | UnableToLoad string
  | CollaboratorFailed string

text \<open>
  \<open>st.session_state\<close>, restricted to the keys the view reads or writes. The type \<open>'r\<close> is
  the table returned by \<open>SiteEvaluator.evaluate_sites\<close>, the type \<open>'h\<close> that of the digests
  (strings of hexadecimal digits in the source).
\<close>

record ('r, 'h) session_state =
  mcda_weight_pop :: "rat option"
  mcda_weight_acc :: "rat option"
  mcda_weight_risk :: "rat option"
  mcda_weight_cap :: "rat option"
  mcda_weight_serv :: "rat option"
  sites_data_for_evaluation :: "site list option"
  evaluated_sites_for_view :: "'r option"
  selected_data_file :: "string option"
  last_weights_hash :: "'h option"

definition empty_session :: "('r, 'h) session_state" where
  "empty_session =
     \<lparr>mcda_weight_pop = None, mcda_weight_acc = None, mcda_weight_risk = None,
      mcda_weight_cap = None, mcda_weight_serv = None,
      sites_data_for_evaluation = None, evaluated_sites_for_view = None,
      selected_data_file = None, last_weights_hash = None\<rparr>"

text \<open>
  What the user does in one run of the script: a position on each of the five sliders
  (\<open>None\<close> when the slider is left where it is), the entry chosen in the file select box (an
  index into the list of available files) and whether the reload button was pressed.
\<close>

record ui_input =
  pop_density_pick :: "nat option"
  accessibility_pick :: "nat option"
  risk_level_pick :: "nat option"
  facility_capacity_pick :: "nat option"
  service_coverage_pick :: "nat option"
  file_choice :: nat
  reload_pressed :: bool

text \<open>
  The collaborators imported by \<open>app.py\<close> from modules outside \<open>src/\<close>, taken as parameters:
  the two functions of \<open>data_generator\<close>, \<open>MCDAAnalyzer.update_weights\<close> (which yields the
  configured analyzer, of type \<open>'a\<close>), \<open>SiteEvaluator.evaluate_sites\<close> run with that analyzer,
  and \<open>md5_str\<close> for \<open>hashlib.md5(str(_).encode()).hexdigest()\<close>, a function from the
  sorted list of pairs to a digest. With them come the two operations on doubles that the
  view uses: \<open>float_sum\<close> for \<open>sum\<close> over a list of floats and \<open>float_sub\<close> for the
  subtraction of two floats, each giving the double that Python computes for the numbers it
  is given.
\<close>

record ('a, 'r, 'h) collaborators =
  list_available_facility_files :: "error + string list"
  load_specific_facility_data :: "string \<Rightarrow> error + site list"
  update_weights :: "weight_dict \<Rightarrow> error + 'a"
  evaluate_sites :: "'a \<Rightarrow> site list \<Rightarrow> error + 'r"
  md5_str :: "weight_dict \<Rightarrow> 'h"
  float_sum :: "rat list \<Rightarrow> rat"
  float_sub :: "rat \<Rightarrow> rat \<Rightarrow> rat"

subsection \<open>The weight sliders (lines 317 to 329)\<close>

text \<open>
  \<open>st.slider(label, min_value, max_value, value, step)\<close>: Streamlit refuses a \<open>value\<close> outside
  the bounds; an untouched slider returns \<open>value\<close>, a moved one the position
  \<open>min_value + k * step\<close>, never beyond \<open>max_value\<close>.
\<close>

definition slider :: "rat \<Rightarrow> rat \<Rightarrow> rat \<Rightarrow> rat \<Rightarrow> nat option \<Rightarrow> error + rat" where
  "slider min_value max_value val step pick =
     (if val < min_value \<or> max_value < val then Inl StreamlitAPIException
      else case pick of
             None \<Rightarrow> Inr val
           | Some k \<Rightarrow> Inr (min max_value (min_value + of_nat k * step)))"

text \<open>\<open>st.session_state.get(key, default)\<close>.\<close>

definition session_get :: "'v option \<Rightarrow> 'v \<Rightarrow> 'v" where
  "session_get stored dflt = (case stored of None \<Rightarrow> dflt | Some v \<Rightarrow> v)"

definition read_sliders :: "('r, 'h) session_state \<Rightarrow> ui_input \<Rightarrow> error + weight_dict" where
  "read_sliders ss ui =
     (case slider 0 1 (session_get (mcda_weight_pop ss) (25 / 100)) (5 / 100)
             (pop_density_pick ui) of
        Inl e \<Rightarrow> Inl e
      | Inr p \<Rightarrow>
     (case slider 0 1 (session_get (mcda_weight_acc ss) (20 / 100)) (5 / 100)
             (accessibility_pick ui) of
        Inl e \<Rightarrow> Inl e
      | Inr a \<Rightarrow>
     (case slider 0 1 (session_get (mcda_weight_risk ss) (15 / 100)) (5 / 100)
             (risk_level_pick ui) of
        Inl e \<Rightarrow> Inl e
      | Inr r \<Rightarrow>
     (case slider 0 1 (session_get (mcda_weight_cap ss) (20 / 100)) (5 / 100)
             (facility_capacity_pick ui) of
        Inl e \<Rightarrow> Inl e
      | Inr c \<Rightarrow>
     (case slider 0 1 (session_get (mcda_weight_serv ss) (20 / 100)) (5 / 100)
             (service_coverage_pick ui) of
        Inl e \<Rightarrow> Inl e
      | Inr s \<Rightarrow>
          Inr [(''population_density'', p), (''accessibility'', a), (''risk_level'', r),
               (''facility_capacity'', c), (''service_coverage'', s)])))))"

text \<open>\<open>current_weights[key]\<close>; the five keys are always there when it is called.\<close>

definition weight_of :: "weight_dict \<Rightarrow> string \<Rightarrow> rat option" where
  "weight_of w k = map_of w k"

definition store_weights :: "weight_dict \<Rightarrow> ('r, 'h) session_state \<Rightarrow> ('r, 'h) session_state" where
  "store_weights w ss =
     ss\<lparr>mcda_weight_pop := weight_of w ''population_density'',
        mcda_weight_acc := weight_of w ''accessibility'',
        mcda_weight_risk := weight_of w ''risk_level'',
        mcda_weight_cap := weight_of w ''facility_capacity'',
        mcda_weight_serv := weight_of w ''service_coverage''\<rparr>"

subsection \<open>The weight-sum diagnostic (lines 334 to 338)\<close>

datatype diagnostic = Warning rat | Success rat

text \<open>
  The float literal \<open>0.01\<close>: the double nearest to one hundredth,
  5764607523034235 / 2^59, a little above it.
\<close>

definition double_0_01 :: rat where
  "double_0_01 = 5764607523034235 / 576460752303423488"

text \<open>Line 334: \<open>sum(current_weights.values())\<close>, a sum of doubles.\<close>

definition total_weight :: "('a, 'r, 'h) collaborators \<Rightarrow> weight_dict \<Rightarrow> rat" where
  "total_weight env w = float_sum env (map snd w)"

text \<open>
  Lines 335 to 338: \<open>abs(total_weight - 1.0) > 0.01\<close>, with the subtraction of doubles; the
  absolute value and the comparison of doubles are exact.
\<close>

definition weight_sum_diagnostic :: "('a, 'r, 'h) collaborators \<Rightarrow> weight_dict \<Rightarrow> diagnostic" where
  "weight_sum_diagnostic env w =
     (if \<bar>float_sub env (total_weight env w) 1\<bar> > double_0_01 then Warning (total_weight env w)
      else Success (total_weight env w))"

subsection \<open>The view (lines 303 to 493)\<close>

text \<open>
  What one run shows: the weight-sum diagnostic once it has been reached, the error that
  stopped the run (an early \<open>return\<close> after \<open>st.error\<close>, or an exception caught by the outer
  handler), whether \<open>evaluate_sites\<close> was called, and the table displayed.
\<close>

record 'r view_result =
  weight_diagnostic :: "diagnostic option"
  failure :: "error option"
  recomputed :: bool
  displayed :: "'r option"

definition stopped :: "diagnostic option \<Rightarrow> error \<Rightarrow> 'r view_result" where
  "stopped d e =
     \<lparr>weight_diagnostic = d, failure = Some e, recomputed = False, displayed = None\<rparr>"

text \<open>
  Lines 351 to 369: the select box shows one display name for each file and the view maps the
  chosen name back with \<open>file_display_names.index\<close>. The box is modelled by the index chosen;
  an index beyond the list is the last entry.
\<close>

definition chosen_file :: "string list \<Rightarrow> nat \<Rightarrow> string" where
  "chosen_file available_files i = available_files ! (min i (length available_files - 1))"

text \<open>Lines 377 to 381: the reload button clears both cached tables.\<close>

definition press_reload :: "string \<Rightarrow> ('r, 'h) session_state \<Rightarrow> ('r, 'h) session_state" where
  "press_reload selected_file ss =
     ss\<lparr>sites_data_for_evaluation := None, evaluated_sites_for_view := None,
        selected_data_file := Some selected_file\<rparr>"

text \<open>
  Lines 389 to 400: read the selected file; an exception of the loader or an empty table
  stops the run, otherwise the table and the name of the file are stored.
\<close>

definition read_facility_file ::
  "('a, 'r, 'h) collaborators \<Rightarrow> string \<Rightarrow> ('r, 'h) session_state \<Rightarrow>
   error + (site list \<times> ('r, 'h) session_state)"
where
  "read_facility_file env selected_file ss =
     (case load_specific_facility_data env selected_file of
        Inl e \<Rightarrow> Inl e
      | Inr raw_sites_data \<Rightarrow>
          if raw_sites_data = [] then Inl (UnableToLoad selected_file)
          else Inr (raw_sites_data,
                    ss\<lparr>sites_data_for_evaluation := Some raw_sites_data,
                       selected_data_file := Some selected_file\<rparr>))"

text \<open>
  Lines 384 to 402: the file is read when no table is stored or another file is selected.
  The result is the table to evaluate (\<open>raw_sites_data_to_evaluate\<close>) and the session.
\<close>

definition load_data ::
  "('a, 'r, 'h) collaborators \<Rightarrow> string \<Rightarrow> ('r, 'h) session_state \<Rightarrow>
   error + (site list \<times> ('r, 'h) session_state)"
where
  "load_data env selected_file ss =
     (case sites_data_for_evaluation ss of
        None \<Rightarrow> read_facility_file env selected_file ss
      | Some raw \<Rightarrow>
          if selected_data_file ss \<noteq> Some selected_file
          then read_facility_file env selected_file ss
          else Inr (raw, ss))"

text \<open>Line 424: the fingerprint of the run.\<close>

definition weights_hash :: "('a, 'r, 'h) collaborators \<Rightarrow> weight_dict \<Rightarrow> 'h" where
  "weights_hash env current_weights = md5_str env (sort current_weights)"

text \<open>Lines 425 to 432.\<close>

definition need_reevaluation :: "'h \<Rightarrow> ('r, 'h) session_state \<Rightarrow> bool" where
  "need_reevaluation h ss \<longleftrightarrow>
     evaluated_sites_for_view ss = None \<or>
     last_weights_hash ss \<noteq> Some h \<or>
     sites_data_for_evaluation ss = None"

text \<open>Lines 423 to 446: evaluate when needed, then show the stored table.\<close>

definition evaluate_and_show ::
  "('a, 'r, 'h) collaborators \<Rightarrow> diagnostic \<Rightarrow> weight_dict \<Rightarrow> 'a \<Rightarrow> site list \<Rightarrow>
   ('r, 'h) session_state \<Rightarrow> 'r view_result \<times> ('r, 'h) session_state"
where
  "evaluate_and_show env d current_weights analyzer raw ss =
     (let h = weights_hash env current_weights in
      if need_reevaluation h ss then
        (case evaluate_sites env analyzer raw of
           Inl e \<Rightarrow> (stopped (Some d) e, ss)
         | Inr evaluated_sites \<Rightarrow>
             (\<lparr>weight_diagnostic = Some d, failure = None, recomputed = True,
               displayed = Some evaluated_sites\<rparr>,
              ss\<lparr>evaluated_sites_for_view := Some evaluated_sites,
                 last_weights_hash := Some h\<rparr>))
      else
        (\<lparr>weight_diagnostic = Some d, failure = None, recomputed = False,
          displayed = evaluated_sites_for_view ss\<rparr>, ss))"

definition site_evaluation_view ::
  "('a, 'r, 'h) collaborators \<Rightarrow> ui_input \<Rightarrow> ('r, 'h) session_state \<Rightarrow>
   'r view_result \<times> ('r, 'h) session_state"
where
  "site_evaluation_view env ui ss0 =
     (case read_sliders ss0 ui of
        Inl e \<Rightarrow> (stopped None e, ss0)
      | Inr current_weights \<Rightarrow>
     (let ss1 = store_weights current_weights ss0 in
      case update_weights env current_weights of
        Inl e \<Rightarrow> (stopped None e, ss1)
      | Inr analyzer \<Rightarrow>
     (let d = weight_sum_diagnostic env current_weights in
      case list_available_facility_files env of
        Inl e \<Rightarrow> (stopped (Some d) e, ss1)
      | Inr available_files \<Rightarrow>
     (if available_files = [] then (stopped (Some d) NoFacilityFiles, ss1)
      else
        let selected_file = chosen_file available_files (file_choice ui);
            ss2 = (if reload_pressed ui then press_reload selected_file ss1 else ss1)
        in case load_data env selected_file ss2 of
             Inl e \<Rightarrow> (stopped (Some d) e, ss2)
           | Inr (raw, ss3) \<Rightarrow> evaluate_and_show env d current_weights analyzer raw ss3))))"

text \<open>A sequence of runs, each on the session the previous one left.\<close>

fun runs ::
  "('a, 'r, 'h) collaborators \<Rightarrow> ui_input list \<Rightarrow> ('r, 'h) session_state \<Rightarrow>
   ('r, 'h) session_state"
where
  "runs env [] ss = ss"
| "runs env (ui # uis) ss = runs env uis (snd (site_evaluation_view env ui ss))"

subsection \<open>The scoring core\<close>

text \<open>
  \<open>app.py\<close> imports \<open>MCDAAnalyzer\<close> and \<open>SiteEvaluator\<close> from
  \<open>src/components/decision_analyzer.py\<close>, which is not among the sources. The definitions of
  this subsection follow sections 3, 4.1, 4.2, 4.3, 4.5 and 7 of the specification.
\<close>

text \<open>Modelled from the spec: the fixed criterion set of \<open>WeightVector\<close> (section 3).\<close>

definition criterion_names :: "string list" where
  "criterion_names =
     [''population_density'', ''accessibility'', ''risk_level'', ''facility_capacity'',
      ''service_coverage'']"

text \<open>
  Modelled from the spec: \<open>WeightVector.validate\<close> (4.1, 7), absent from the sources. It fails
  on the first pair whose key is outside the criterion set or whose value is negative, and
  reports that pair; it does not look at the sum. A non-finite weight is not a \<^typ>\<open>rat\<close>.
\<close>

definition validate :: "weight_dict \<Rightarrow> error + weight_dict" where
  "validate weights =
     (case filter (\<lambda>(k, v). k \<notin> set criterion_names \<or> v < 0) weights of
        [] \<Rightarrow> Inr weights
      | (k, v) # _ \<Rightarrow> Inl (InvalidWeightError k v))"

text \<open>
  Modelled from the spec: the raw criterion column of a \<open>CandidateSite\<close> by name (section 3);
  a missing value is \<open>None\<close>.
\<close>

definition raw_value :: "string \<Rightarrow> site \<Rightarrow> rat option" where
  "raw_value c s =
     (if c = ''population_density'' then population_density s
      else if c = ''accessibility'' then accessibility s
      else if c = ''risk_level'' then risk_level s
      else if c = ''facility_capacity'' then facility_capacity s
      else if c = ''service_coverage'' then service_coverage s
      else None)"

text \<open>
  Modelled from the spec: the non-missing values of a criterion in the batch (4.2, first
  bullet).
\<close>

definition present_values :: "string \<Rightarrow> site list \<Rightarrow> rat list" where
  "present_values c batch =
     concat (map (\<lambda>s. case raw_value c s of None \<Rightarrow> [] | Some v \<Rightarrow> [v]) batch)"

text \<open>
  Modelled from the spec: the minimum and the maximum over the non-missing values alone
  (4.2, first and fourth bullet).
\<close>

definition column_range :: "string \<Rightarrow> site list \<Rightarrow> (rat \<times> rat) option" where
  "column_range c batch =
     (case present_values c batch of
        [] \<Rightarrow> None
      | v # vs \<Rightarrow> Some (fold min vs v, fold max vs v))"

text \<open>Modelled from the spec: the direction policy of \<open>CriterionNormalizer\<close> (4.2).\<close>

definition lower_is_better :: "string \<Rightarrow> bool" where
  "lower_is_better c \<longleftrightarrow> c = ''risk_level''"

text \<open>
  Modelled from the spec: the normalized value of one site for one criterion (4.2): 0.5 for
  a missing raw value and for a criterion without spread, otherwise the min-max formula in
  the direction of the criterion.
\<close>

definition normalize_value :: "string \<Rightarrow> site list \<Rightarrow> site \<Rightarrow> rat" where
  "normalize_value c batch s =
     (case raw_value c s of
        None \<Rightarrow> 1 / 2
      | Some v \<Rightarrow>
          (case column_range c batch of
             None \<Rightarrow> 1 / 2
           | Some (mn, mx) \<Rightarrow>
               if mx = mn then 1 / 2
               else if lower_is_better c then (mx - v) / (mx - mn)
               else (v - mn) / (mx - mn)))"

text \<open>
  Modelled from the spec: the derived columns of a \<open>CandidateSite\<close> (section 3), added to
  the row by the normalizer and by the scorer.
\<close>

record normalized_site =
  raw_site :: site
  normalized :: "(string \<times> rat) list"

record evaluated_site = normalized_site +
  total_score :: rat
  rank :: nat
  recommended :: bool

text \<open>
  Modelled from the spec: \<open>CriterionNormalizer.normalize\<close> (4.2), absent from the sources:
  the same sequence with one normalized column for each criterion asked for.
\<close>

definition normalize_batch :: "site list \<Rightarrow> string list \<Rightarrow> normalized_site list" where
  "normalize_batch batch criteria =
     map (\<lambda>s. \<lparr>raw_site = s,
               normalized = map (\<lambda>c. (c, normalize_value c batch s)) criteria\<rparr>) batch"

text \<open>
  Modelled from the spec: reading a normalized column of a site (4.3). A criterion without a
  normalized column adds nothing to the total; the facade below gives every weighted
  criterion its column.
\<close>

definition column :: "(string \<times> rat) list \<Rightarrow> string \<Rightarrow> rat" where
  "column cols c = (case map_of cols c of None \<Rightarrow> 0 | Some v \<Rightarrow> v)"

text \<open>
  Modelled from the spec: \<open>total_score(site)\<close>, the sum of weight times normalized value over
  the pairs of the weight vector (4.3, first bullet).
\<close>

definition weighted_total :: "weight_dict \<Rightarrow> normalized_site \<Rightarrow> rat" where
  "weighted_total weights n =
     sum_list (map (\<lambda>(c, wt). wt * column (normalized n) c) weights)"

text \<open>
  Modelled from the spec: the ranking of \<open>MCDAScorer\<close> (4.3): the input positions sorted by
  descending score with a stable sort (insertion sort on the negated score).
\<close>

definition rank_order :: "rat list \<Rightarrow> nat list" where
  "rank_order scores = sort_key (\<lambda>i. - (scores ! i)) [0..<length scores]"

text \<open>Modelled from the spec: the place of a position in the sorted order (4.3).\<close>

fun place :: "nat \<Rightarrow> nat list \<Rightarrow> nat" where
  "place i [] = 0"
| "place i (j # js) = (if i = j then 0 else Suc (place i js))"

text \<open>Modelled from the spec: the dense ranks 1 to N, in input order (4.3).\<close>

definition ranks :: "rat list \<Rightarrow> nat list" where
  "ranks scores = map (\<lambda>i. Suc (place i (rank_order scores))) [0..<length scores]"

text \<open>Modelled from the spec: the fixed recommendation threshold (4.3, 6).\<close>

definition recommendation_threshold :: rat where
  "recommendation_threshold = 6 / 10"

text \<open>
  Modelled from the spec: \<open>MCDAScorer.score\<close> (4.3), absent from the sources: total score,
  rank and recommendation flag for every site, in input order; an empty batch fails.
\<close>

definition score :: "normalized_site list \<Rightarrow> weight_dict \<Rightarrow> error + evaluated_site list" where
  "score batch weights =
     (if batch = [] then Inl EmptyBatchError
      else Inr (map (\<lambda>(n, r).
                  \<lparr>raw_site = raw_site n, normalized = normalized n,
                   total_score = weighted_total weights n, rank = r,
                   recommended = (recommendation_threshold \<le> weighted_total weights n)\<rparr>)
                (zip batch (ranks (map (weighted_total weights) batch)))))"

text \<open>
  Modelled from the spec: \<open>SiteEvaluator.evaluate\<close> (4.5) without its cache, which is the
  session of the view: validate the weights, refuse an empty batch, normalize, score.
\<close>

definition evaluate :: "site list \<Rightarrow> weight_dict \<Rightarrow> error + evaluated_site list" where
  "evaluate raw_records weights =
     (case validate weights of
        Inl e \<Rightarrow> Inl e
      | Inr wv \<Rightarrow>
          if raw_records = [] then Inl EmptyBatchError
          else score (normalize_batch raw_records (map fst wv)) wv)"

text \<open>
  The view run with the scoring core above in the place of the missing module; the files,
  the loader, the digest and the two operations on doubles stay parameters.
\<close>

definition core_collaborators ::
  "string list \<Rightarrow> (string \<Rightarrow> error + site list) \<Rightarrow> (weight_dict \<Rightarrow> 'h) \<Rightarrow>
   (rat list \<Rightarrow> rat) \<Rightarrow> (rat \<Rightarrow> rat \<Rightarrow> rat) \<Rightarrow>
   (weight_dict, evaluated_site list, 'h) collaborators"
where
  "core_collaborators files load h fsum fsub =
     \<lparr>list_available_facility_files = Inr files,
      load_specific_facility_data = load,
      update_weights = validate,
      evaluate_sites = (\<lambda>wv raw. evaluate raw wv),
      md5_str = h,
      float_sum = fsum,
      float_sub = fsub\<rparr>"

subsection \<open>The "Recommended Sites" metric of the view (line 468)\<close>

definition recommended_sites :: "evaluated_site list \<Rightarrow> nat" where
  "recommended_sites evaluated_sites_display =
     length (filter (\<lambda>s. total_score s \<ge> 6 / 10) evaluated_sites_display)"

subsection \<open>Export and re-import of the evaluated table\<close>

text \<open>
  The export button (lines 480 and 481, and line 688 of the data management view) writes the
  evaluated table with \<open>to_csv(index=False)\<close>; the data management view reads an uploaded file
  with \<open>pd.read_csv\<close> (line 610). Both are functions of pandas, modelled here from its
  documentation, with the defaults that the calls leave in place. A table is its column
  names and its rows of cells; a cell is a text, an integer, a float, a boolean or missing
  (\<open>NaN\<close>).
\<close>

datatype cell = TextCell string | IntCell int | FloatCell rat | BoolCell bool | MissingCell

record frame =
  frame_columns :: "string list"
  frame_rows :: "cell list list"

text \<open>
  The text of numbers, a parameter: how \<open>to_csv\<close> writes an integer and a float, and which
  integer or float \<open>read_csv\<close> reads in a field, if any.
\<close>

record number_text =
  repr_int :: "int \<Rightarrow> string"
  repr_float :: "rat \<Rightarrow> string"
  parse_int :: "string \<Rightarrow> int option"
  parse_float :: "string \<Rightarrow> rat option"

text \<open>
  Modelled from the spec: the evaluated table as a table of cells (sections 3 and 6): the
  original columns, then one \<open>normalized_\<close> column for each criterion of the weight vector,
  then \<open>total_score\<close>, \<open>rank\<close> and \<open>recommended\<close>. The names \<open>name\<close>, \<open>latitude\<close>, \<open>longitude\<close>,
  \<open>total_score\<close>, \<open>rank\<close> and those of the criteria are the ones the view reads (lines 452 to
  463).
\<close>

definition evaluated_columns :: "evaluated_site list \<Rightarrow> string list" where
  "evaluated_columns r =
     [''id'', ''name'', ''latitude'', ''longitude''] @ criterion_names @
     (case r of [] \<Rightarrow> [] | e # _ \<Rightarrow> map (\<lambda>(c, v). ''normalized_'' @ c) (normalized e)) @
     [''total_score'', ''rank'', ''recommended'']"

text \<open>Modelled from the spec: a raw criterion value as a cell, missing when absent (3).\<close>

definition criterion_cell :: "rat option \<Rightarrow> cell" where
  "criterion_cell x = (case x of None \<Rightarrow> MissingCell | Some v \<Rightarrow> FloatCell v)"

text \<open>Modelled from the spec: the row of one evaluated site (sections 3 and 6).\<close>

definition evaluated_row :: "evaluated_site \<Rightarrow> cell list" where
  "evaluated_row e =
     [IntCell (int (site_id (raw_site e))), TextCell (site_name (raw_site e)),
      FloatCell (latitude (raw_site e)), FloatCell (longitude (raw_site e)),
      criterion_cell (population_density (raw_site e)),
      criterion_cell (accessibility (raw_site e)),
      criterion_cell (risk_level (raw_site e)),
      criterion_cell (facility_capacity (raw_site e)),
      criterion_cell (service_coverage (raw_site e))] @
     map (\<lambda>(c, v). FloatCell v) (normalized e) @
     [FloatCell (total_score e), IntCell (int (rank e)), BoolCell (recommended e)]"

text \<open>Modelled from the spec: the evaluated table (section 6, Output).\<close>

definition to_frame :: "evaluated_site list \<Rightarrow> frame" where
  "to_frame r = \<lparr>frame_columns = evaluated_columns r, frame_rows = map evaluated_row r\<rparr>"

text \<open>The four characters with a role in the text: comma, double quote, line feed, carriage return.\<close>

definition comma :: char where "comma = CHR '',''"

definition dquote :: char where "dquote = CHR 0x22"

definition newline :: char where "newline = CHR 0x0A"

definition creturn :: char where "creturn = CHR 0x0D"

text \<open>
  \<open>to_csv\<close>: a missing value is written as the empty field (\<open>na_rep=''\<close>), a boolean as
  \<open>True\<close> or \<open>False\<close>, a number as its text.
\<close>

definition render_cell :: "number_text \<Rightarrow> cell \<Rightarrow> string" where
  "render_cell nt c =
     (case c of
        TextCell s \<Rightarrow> s
      | IntCell i \<Rightarrow> repr_int nt i
      | FloatCell x \<Rightarrow> repr_float nt x
      | BoolCell b \<Rightarrow> (if b then ''True'' else ''False'')
      | MissingCell \<Rightarrow> [])"

text \<open>
  \<open>quoting=csv.QUOTE_MINIMAL\<close>, \<open>quotechar='"'\<close>, \<open>doublequote=True\<close>: a field is put in double
  quotes when it contains the delimiter, the quote character or a character of the line
  terminator, and each quote character inside is doubled.
\<close>

definition needs_quotes :: "string \<Rightarrow> bool" where
  "needs_quotes s \<longleftrightarrow> (\<exists>c \<in> set s. c = comma \<or> c = dquote \<or> c = newline)"

definition escape_quotes :: "string \<Rightarrow> string" where
  "escape_quotes s = concat (map (\<lambda>c. if c = dquote then [dquote, dquote] else [c]) s)"

definition write_field :: "string \<Rightarrow> string" where
  "write_field s = (if needs_quotes s then dquote # escape_quotes s @ [dquote] else s)"

fun join_fields :: "string list \<Rightarrow> string" where
  "join_fields [] = []"
| "join_fields [f] = f"
| "join_fields (f # g # fs) = f @ comma # join_fields (g # fs)"

text \<open>
  One line of the file, ended by the line terminator (\<open>'\n'\<close>); a row that is a single empty
  field is written as two quotes, so that the line is not blank.
\<close>

definition write_row :: "string list \<Rightarrow> string" where
  "write_row fs =
     (if fs = [[]] then [dquote, dquote] else join_fields (map write_field fs)) @ [newline]"

text \<open>\<open>to_csv(index=False)\<close>: the header line, then one line for each row.\<close>

definition to_csv :: "number_text \<Rightarrow> frame \<Rightarrow> string" where
  "to_csv nt t =
     concat (map write_row (frame_columns t # map (map (render_cell nt)) (frame_rows t)))"

text \<open>
  \<open>read_csv\<close>, the splitting of the text into rows of fields: a comma ends a field, a line
  feed or a carriage return outside quotes ends a row, a field that starts with a double
  quote runs to the closing quote with doubled quotes read as one, and a blank line is
  skipped (\<open>skip_blank_lines=True\<close>). The arguments are the state, the field and the row
  read so far. A text that ends inside quotes is refused.
\<close>

datatype reader_state = StartField | InField | InQuotes | QuoteInQuotes

definition end_row :: "string list \<Rightarrow> string list list option \<Rightarrow> string list list option" where
  "end_row row rest = map_option ((#) row) rest"

fun read_chars ::
  "reader_state \<Rightarrow> string \<Rightarrow> string list \<Rightarrow> string \<Rightarrow> string list list option"
where
  "read_chars st field row [] =
     (case st of
        StartField \<Rightarrow> if row = [] then Some [] else Some [row @ [field]]
      | InField \<Rightarrow> Some [row @ [field]]
      | InQuotes \<Rightarrow> None
      | QuoteInQuotes \<Rightarrow> Some [row @ [field]])"
| "read_chars st field row (c # cs) =
     (case st of
        StartField \<Rightarrow>
          if c = newline \<or> c = creturn then
            (if row = [] then read_chars StartField [] [] cs
             else end_row (row @ [field]) (read_chars StartField [] [] cs))
          else if c = comma then read_chars StartField [] (row @ [field]) cs
          else if c = dquote then read_chars InQuotes [] row cs
          else read_chars InField [c] row cs
      | InField \<Rightarrow>
          if c = newline \<or> c = creturn then
            end_row (row @ [field]) (read_chars StartField [] [] cs)
          else if c = comma then read_chars StartField [] (row @ [field]) cs
          else read_chars InField (field @ [c]) row cs
      | InQuotes \<Rightarrow>
          if c = dquote then read_chars QuoteInQuotes field row cs
          else read_chars InQuotes (field @ [c]) row cs
      | QuoteInQuotes \<Rightarrow>
          if c = dquote then read_chars InQuotes (field @ [dquote]) row cs
          else if c = newline \<or> c = creturn then
            end_row (row @ [field]) (read_chars StartField [] [] cs)
          else if c = comma then read_chars StartField [] (row @ [field]) cs
          else read_chars InField (field @ [c]) row cs)"

text \<open>
  The fields that \<open>read_csv\<close> takes for a missing value by default (\<open>na_values\<close> with
  \<open>keep_default_na=True\<close>), the empty field among them, and the texts it takes for booleans.
\<close>

definition na_values :: "string list" where
  "na_values =
     ['''', ''#N/A'', ''#N/A N/A'', ''#NA'', ''-1.#IND'', ''-1.#QNAN'', ''-NaN'', ''-nan'',
      ''1.#IND'', ''1.#QNAN'', ''<NA>'', ''N/A'', ''NA'', ''NULL'', ''NaN'', ''None'', ''n/a'',
      ''nan'', ''null'']"

definition is_na :: "string \<Rightarrow> bool" where
  "is_na f \<longleftrightarrow> f \<in> set na_values"

definition true_values :: "string list" where
  "true_values = [''True'', ''TRUE'', ''true'']"

definition false_values :: "string list" where
  "false_values = [''False'', ''FALSE'', ''false'']"

definition is_bool :: "string \<Rightarrow> bool" where
  "is_bool f \<longleftrightarrow> f \<in> set (true_values @ false_values)"

text \<open>
  The type \<open>read_csv\<close> gives a column, from all its fields: a column of missing values only;
  integers when every field is an integer; floats when every field is missing or a number;
  booleans when every field is missing or a boolean; texts otherwise.
\<close>

datatype column_kind = AllMissing | Ints | Floats | Bools | Texts

definition is_number :: "number_text \<Rightarrow> string \<Rightarrow> bool" where
  "is_number nt f \<longleftrightarrow> parse_int nt f \<noteq> None \<or> parse_float nt f \<noteq> None"

definition infer_kind :: "number_text \<Rightarrow> string list \<Rightarrow> column_kind" where
  "infer_kind nt fs =
     (if \<forall>f \<in> set fs. is_na f then AllMissing
      else if \<forall>f \<in> set fs. \<not> is_na f \<and> parse_int nt f \<noteq> None then Ints
      else if \<forall>f \<in> set fs. is_na f \<or> is_number nt f then Floats
      else if \<forall>f \<in> set fs. is_na f \<or> is_bool f then Bools
      else Texts)"

text \<open>The cell read in a field of a column of a given type.\<close>

definition convert :: "number_text \<Rightarrow> column_kind \<Rightarrow> string \<Rightarrow> cell" where
  "convert nt k f =
     (if is_na f then MissingCell
      else case k of
             AllMissing \<Rightarrow> MissingCell
           | Ints \<Rightarrow> (case parse_int nt f of Some i \<Rightarrow> IntCell i | None \<Rightarrow> MissingCell)
           | Floats \<Rightarrow>
               (case parse_float nt f of
                  Some x \<Rightarrow> FloatCell x
                | None \<Rightarrow>
                    (case parse_int nt f of
                       Some i \<Rightarrow> FloatCell (of_int i)
                     | None \<Rightarrow> MissingCell))
           | Bools \<Rightarrow> BoolCell (f \<in> set true_values)
           | Texts \<Rightarrow> TextCell f)"

datatype csv_error = ParserError | EmptyDataError

text \<open>
  \<open>pd.read_csv(file)\<close>: the first row gives the column names (\<open>header='infer'\<close>), a row with
  fewer fields is filled with missing values, and each column is typed from its fields. A
  text without any row is refused (\<open>EmptyDataError\<close>). Two things pandas does are left out
  and stay outside every statement below: the renaming of an empty or repeated column name,
  and the treatment of a row with more fields than the header, refused here.
\<close>

definition read_csv :: "number_text \<Rightarrow> string \<Rightarrow> csv_error + frame" where
  "read_csv nt text =
     (case read_chars StartField [] [] text of
        None \<Rightarrow> Inl ParserError
      | Some [] \<Rightarrow> Inl EmptyDataError
      | Some (names # lines) \<Rightarrow>
          if \<exists>l \<in> set lines. length names < length l then Inl ParserError
          else
            let n = length names;
                rows = map (\<lambda>l. l @ replicate (n - length l) []) lines
            in Inr \<lparr>frame_columns = names,
                    frame_rows =
                      map (\<lambda>row. map (\<lambda>j. convert nt (infer_kind nt (map (\<lambda>r. r ! j) rows))
                                              (row ! j)) [0..<n]) rows\<rparr>)"

text \<open>Lines 480 and 481: the export of the stored evaluation, when there is one.\<close>

definition export_evaluation_results ::
  "number_text \<Rightarrow> (evaluated_site list, 'h) session_state \<Rightarrow> string option"
where
  "export_evaluation_results nt ss =
     map_option (\<lambda>evaluated_sites_display. to_csv nt (to_frame evaluated_sites_display))
       (evaluated_sites_for_view ss)"

subsection \<open>Notions used in the statements\<close>

text \<open>The five weights stored in the session, in the order of the sliders.\<close>

definition weight_fields :: "('r, 'h) session_state \<Rightarrow> rat option list" where
  "weight_fields ss =
     [mcda_weight_pop ss, mcda_weight_acc ss, mcda_weight_risk ss, mcda_weight_cap ss,
      mcda_weight_serv ss]"

text \<open>Every weight stored in the session lies between 0 and 1.\<close>

definition stored_weights_ok :: "('r, 'h) session_state \<Rightarrow> bool" where
  "stored_weights_ok ss \<longleftrightarrow> (\<forall>v. Some v \<in> set (weight_fields ss) \<longrightarrow> 0 \<le> v \<and> v \<le> 1)"

text \<open>A multiple of 0.05, as every position of a slider with step 0.05 from 0 is.\<close>

definition on_grid :: "rat \<Rightarrow> bool" where
  "on_grid v \<longleftrightarrow> of_int \<lfloor>20 * v\<rfloor> = 20 * v"

text \<open>Every weight stored in the session is such a position.\<close>

definition stored_on_grid :: "('r, 'h) session_state \<Rightarrow> bool" where
  "stored_on_grid ss \<longleftrightarrow>
     (\<forall>x \<in> set (weight_fields ss). case x of None \<Rightarrow> True | Some v \<Rightarrow> on_grid v)"

text \<open>
  The accuracy asked of the two operations on doubles, far below what doubles give: on five
  numbers between 0 and 1 the sum is within a thousandth of the exact sum, and so is the
  difference of a number of size at most 6 and 1.
\<close>

definition float_accurate :: "('a, 'r, 'h) collaborators \<Rightarrow> bool" where
  "float_accurate env \<longleftrightarrow>
     (\<forall>vs. length vs = 5 \<and> (\<forall>v \<in> set vs. 0 \<le> v \<and> v \<le> 1) \<longrightarrow>
           \<bar>float_sum env vs - sum_list vs\<bar> \<le> 1 / 1000) \<and>
     (\<forall>a. \<bar>a\<bar> \<le> 6 \<longrightarrow> \<bar>float_sub env a 1 - (a - 1)\<bar> \<le> 1 / 1000)"

text \<open>
  The order of the ranking on input positions, for a key \<open>f\<close> (the negated score): a smaller
  key first, and the earlier position first among equal keys.
\<close>

definition ranks_before :: "(nat \<Rightarrow> rat) \<Rightarrow> nat \<Rightarrow> nat \<Rightarrow> bool" where
  "ranks_before f a b \<longleftrightarrow> f a < f b \<or> (f a = f b \<and> a < b)"

text \<open>
  Modelled from the spec: the minimum of a criterion "across all sites in the batch that have
  a non-missing value" (4.2), as the statements about normalization name it; \<open>column_range\<close>
  computes it.
\<close>

definition batch_min :: "string \<Rightarrow> site list \<Rightarrow> rat" where
  "batch_min c batch = Min (set (present_values c batch))"

text \<open>Modelled from the spec: the maximum, likewise (4.2).\<close>

definition batch_max :: "string \<Rightarrow> site list \<Rightarrow> rat" where
  "batch_max c batch = Max (set (present_values c batch))"

subsection \<open>Tables that survive the export\<close>

text \<open>
  The type of a column of a table: integers, floats, booleans or texts; a missing value fits
  every type but the integers.
\<close>

datatype column_type = IntColumn | FloatColumn | BoolColumn | TextColumn

definition fits :: "column_type \<Rightarrow> cell \<Rightarrow> bool" where
  "fits ty c =
     (case c of
        TextCell s \<Rightarrow> ty = TextColumn
      | IntCell i \<Rightarrow> ty = IntColumn
      | FloatCell x \<Rightarrow> ty = FloatColumn
      | BoolCell b \<Rightarrow> ty = BoolColumn
      | MissingCell \<Rightarrow> ty \<noteq> IntColumn)"

text \<open>
  A cell that the reader gives back from the text the writer gave it: the text has no
  carriage return; that of an integer is read as this integer, that of a float as this
  float and not as an integer, and neither is a missing-value marker; \<open>True\<close> and \<open>False\<close>
  are not read as numbers; a text is not a missing-value marker (so not empty), not read as
  a number and not a boolean.
\<close>

definition reads_back :: "number_text \<Rightarrow> cell \<Rightarrow> bool" where
  "reads_back nt c \<longleftrightarrow>
     creturn \<notin> set (render_cell nt c) \<and>
     (case c of
        TextCell s \<Rightarrow> \<not> is_na s \<and> \<not> is_number nt s \<and> \<not> is_bool s
      | IntCell i \<Rightarrow> \<not> is_na (repr_int nt i) \<and> parse_int nt (repr_int nt i) = Some i
      | FloatCell x \<Rightarrow>
          \<not> is_na (repr_float nt x) \<and> parse_int nt (repr_float nt x) = None \<and>
          parse_float nt (repr_float nt x) = Some x
      | BoolCell b \<Rightarrow> \<not> is_number nt (render_cell nt (BoolCell b))
      | MissingCell \<Rightarrow> True)"

text \<open>
  A table within the reach of the model of \<open>read_csv\<close> whose cells it gives back: at least
  one column, the names distinct, not empty and without carriage return, every row of the
  types of the columns, and every cell read back.
\<close>

definition csv_safe :: "number_text \<Rightarrow> column_type list \<Rightarrow> frame \<Rightarrow> bool" where
  "csv_safe nt tys t \<longleftrightarrow>
     frame_columns t \<noteq> [] \<and> length tys = length (frame_columns t) \<and>
     distinct (frame_columns t) \<and>
     (\<forall>n \<in> set (frame_columns t). n \<noteq> [] \<and> creturn \<notin> set n) \<and>
     (\<forall>row \<in> set (frame_rows t). list_all2 fits tys row \<and> (\<forall>c \<in> set row. reads_back nt c))"

text \<open>Every cell of a table is read back.\<close>

definition cells_read_back :: "number_text \<Rightarrow> frame \<Rightarrow> bool" where
  "cells_read_back nt t \<longleftrightarrow> (\<forall>row \<in> set (frame_rows t). \<forall>c \<in> set row. reads_back nt c)"

text \<open>The cells of one column.\<close>

definition column_cells :: "nat \<Rightarrow> frame \<Rightarrow> cell list" where
  "column_cells j t = map (\<lambda>row. row ! j) (frame_rows t)"

text \<open>The types of the columns of the evaluated table.\<close>

definition evaluated_types :: "evaluated_site list \<Rightarrow> column_type list" where
  "evaluated_types r =
     [IntColumn, TextColumn, FloatColumn, FloatColumn] @ replicate 5 FloatColumn @
     (case r of [] \<Rightarrow> [] | e # _ \<Rightarrow> map (\<lambda>(c, v). FloatColumn) (normalized e)) @
     [FloatColumn, IntColumn, BoolColumn]"

subsection \<open>A worked example\<close>

text \<open>
  Two facility files, the scoring core, the sorted list of pairs itself as its digest (a
  digest without collisions), and exact arithmetic for the two operations on doubles.
\<close>

definition facility :: "nat \<Rightarrow> string \<Rightarrow> rat option \<Rightarrow> rat option \<Rightarrow> rat option \<Rightarrow> site" where
  "facility i n p a r =
     \<lparr>site_id = i, site_name = n, latitude = - 369 / 10, longitude = 1748 / 10,
      population_density = p, accessibility = a, risk_level = r,
      facility_capacity = Some 500, service_coverage = Some (1 / 2)\<rparr>"

definition hall :: site where
  "hall = facility 1 ''Hall'' (Some 100) (Some 3) (Some 2)"

definition school :: site where
  "school = facility 2 ''School'' (Some 300) None (Some 1)"

definition stadium :: site where
  "stadium = facility 3 ''Stadium'' (Some 300) (Some 9) (Some 5)"

definition real_facilities :: "site list" where
  "real_facilities = [hall, school, stadium]"

definition qgis_facilities :: "site list" where
  "qgis_facilities =
     [facility 7 ''Church'' (Some 50) (Some 1) (Some 1),
      facility 8 ''Library'' (Some 80) (Some 2) (Some 4)]"

definition example_files :: "string list" where
  "example_files = [''facilities_real.csv'', ''facilities_qgis.csv'']"

definition example_load :: "string \<Rightarrow> error + site list" where
  "example_load f =
     (if f = ''facilities_real.csv'' then Inr real_facilities
      else if f = ''facilities_qgis.csv'' then Inr qgis_facilities
      else Inl (CollaboratorFailed f))"

definition example_env :: "(weight_dict, evaluated_site list, weight_dict) collaborators" where
  "example_env = core_collaborators example_files example_load id sum_list (-)"

text \<open>A run that leaves the sliders alone, and one that moves the first slider to 0.5.\<close>

definition untouched :: "nat \<Rightarrow> bool \<Rightarrow> ui_input" where
  "untouched i b =
     \<lparr>pop_density_pick = None, accessibility_pick = None, risk_level_pick = None,
      facility_capacity_pick = None, service_coverage_pick = None,
      file_choice = i, reload_pressed = b\<rparr>"

definition moved :: ui_input where
  "moved = (untouched 0 False)\<lparr>pop_density_pick := Some 10\<rparr>"

definition default_weights :: weight_dict where
  "default_weights =
     [(''population_density'', 25 / 100), (''accessibility'', 20 / 100),
      (''risk_level'', 15 / 100), (''facility_capacity'', 20 / 100),
      (''service_coverage'', 20 / 100)]"

definition example_batch :: "normalized_site list" where
  "example_batch = normalize_batch real_facilities criterion_names"

text \<open>The first run on the first file, and the session it leaves.\<close>

definition first_run ::
  "evaluated_site list view_result \<times> (evaluated_site list, weight_dict) session_state"
where
  "first_run = site_evaluation_view example_env (untouched 0 True) empty_session"

text \<open>
  Two runs on the session of the first one, both with the second file selected: with the
  reload button pressed, and without.
\<close>

definition reloaded_run ::
  "evaluated_site list view_result \<times> (evaluated_site list, weight_dict) session_state"
where
  "reloaded_run = site_evaluation_view example_env (untouched 1 True) (snd first_run)"

definition switched_run ::
  "evaluated_site list view_result \<times> (evaluated_site list, weight_dict) session_state"
where
  "switched_run = site_evaluation_view example_env (untouched 1 False) (snd first_run)"

text \<open>The weights read when the first slider is moved to 0.5; they sum to 1.25.\<close>

definition heavy_weights :: weight_dict where
  "heavy_weights =
     [(''population_density'', 1 / 2), (''accessibility'', 20 / 100),
      (''risk_level'', 15 / 100), (''facility_capacity'', 20 / 100),
      (''service_coverage'', 20 / 100)]"

text \<open>
  The text of the numbers of the worked example, as Python writes them, and the reading
  back of these texts.
\<close>

definition example_floats :: "(rat \<times> string) list" where
  "example_floats =
     [(- 369 / 10, ''-36.9''), (1748 / 10, ''174.8''), (100, ''100.0''), (300, ''300.0''),
      (500, ''500.0''), (0, ''0.0''), (1, ''1.0''), (2, ''2.0''), (3, ''3.0''), (5, ''5.0''),
      (9, ''9.0''), (1 / 2, ''0.5''), (3 / 4, ''0.75''), (5 / 16, ''0.3125''), (7 / 10, ''0.7''),
      (13 / 20, ''0.65'')]"

definition example_ints :: "(int \<times> string) list" where
  "example_ints = [(1, ''1''), (2, ''2''), (3, ''3'')]"

definition table_repr :: "('n \<times> string) list \<Rightarrow> 'n \<Rightarrow> string" where
  "table_repr tab x = (case map_of tab x of None \<Rightarrow> ''?'' | Some s \<Rightarrow> s)"

definition table_parse :: "('n \<times> string) list \<Rightarrow> string \<Rightarrow> 'n option" where
  "table_parse tab s = map_of (map (\<lambda>(x, t). (t, x)) tab) s"

definition example_numbers :: number_text where
  "example_numbers =
     \<lparr>repr_int = table_repr example_ints, repr_float = table_repr example_floats,
      parse_int = table_parse example_ints, parse_float = table_parse example_floats\<rparr>"

text \<open>The evaluated worked example, and the same when the first site is named \<open>N/A\<close>.\<close>

definition evaluated_example :: "evaluated_site list" where
  "evaluated_example =
     (case evaluate real_facilities default_weights of Inl e \<Rightarrow> [] | Inr r \<Rightarrow> r)"

definition unnamed_facilities :: "site list" where
  "unnamed_facilities = [hall\<lparr>site_name := ''N/A''\<rparr>, school, stadium]"

definition unnamed_example :: "evaluated_site list" where
  "unnamed_example =
     (case evaluate unnamed_facilities default_weights of Inl e \<Rightarrow> [] | Inr r \<Rightarrow> r)"

text \<open>The run of the view that evaluates and stores that table.\<close>

definition unnamed_run ::
  "evaluated_site list view_result \<times> (evaluated_site list, weight_dict) session_state"
where
  "unnamed_run =
     site_evaluation_view
       (core_collaborators [''facilities_real.csv''] (\<lambda>f. Inr unnamed_facilities) id
          sum_list (-))
       (untouched 0 True) empty_session"

section \<open>Properties\<close>

subsection \<open>Sliders and stored weights\<close>

lemma slider_range:
  "slider 0 1 val step pick = Inr v \<Longrightarrow> 0 \<le> step \<Longrightarrow> 0 \<le> v \<and> v \<le> 1"
  by (auto simp: slider_def split: if_splits option.splits)

lemma slider_no_error:
  "0 \<le> val \<Longrightarrow> val \<le> 1 \<Longrightarrow> \<exists>v. slider 0 1 val step pick = Inr v"
  by (auto simp: slider_def split: option.splits)

lemma slider_again:
  "slider 0 1 val (5 / 100) pick = Inr v \<Longrightarrow> slider 0 1 v (5 / 100) pick = Inr v"
  by (auto simp: slider_def split: if_splits option.splits)

lemma read_sliders_shape:
  assumes "read_sliders ss ui = Inr w"
  shows "\<exists>p a r c s.
           w = [(''population_density'', p), (''accessibility'', a), (''risk_level'', r),
                (''facility_capacity'', c), (''service_coverage'', s)] \<and>
           0 \<le> p \<and> p \<le> 1 \<and> 0 \<le> a \<and> a \<le> 1 \<and> 0 \<le> r \<and> r \<le> 1 \<and>
           0 \<le> c \<and> c \<le> 1 \<and> 0 \<le> s \<and> s \<le> 1"
  using assms unfolding read_sliders_def
  by (auto split: sum.splits dest!: slider_range)

lemma read_sliders_keys: "read_sliders ss ui = Inr w \<Longrightarrow> map fst w = criterion_names"
  by (drule read_sliders_shape) (auto simp: criterion_names_def)

lemma read_sliders_ok:
  assumes "stored_weights_ok ss"
  shows "\<exists>w. read_sliders ss ui = Inr w"
proof -
  have 1: "\<exists>v. slider 0 1 (session_get (mcda_weight_pop ss) (25 / 100)) (5 / 100)
                 (pop_density_pick ui) = Inr v"
    using assms
    by (intro slider_no_error; cases "mcda_weight_pop ss";
        simp add: stored_weights_ok_def weight_fields_def session_get_def)
  have 2: "\<exists>v. slider 0 1 (session_get (mcda_weight_acc ss) (20 / 100)) (5 / 100)
                 (accessibility_pick ui) = Inr v"
    using assms
    by (intro slider_no_error; cases "mcda_weight_acc ss";
        simp add: stored_weights_ok_def weight_fields_def session_get_def)
  have 3: "\<exists>v. slider 0 1 (session_get (mcda_weight_risk ss) (15 / 100)) (5 / 100)
                 (risk_level_pick ui) = Inr v"
    using assms
    by (intro slider_no_error; cases "mcda_weight_risk ss";
        simp add: stored_weights_ok_def weight_fields_def session_get_def)
  have 4: "\<exists>v. slider 0 1 (session_get (mcda_weight_cap ss) (20 / 100)) (5 / 100)
                 (facility_capacity_pick ui) = Inr v"
    using assms
    by (intro slider_no_error; cases "mcda_weight_cap ss";
        simp add: stored_weights_ok_def weight_fields_def session_get_def)
  have 5: "\<exists>v. slider 0 1 (session_get (mcda_weight_serv ss) (20 / 100)) (5 / 100)
                 (service_coverage_pick ui) = Inr v"
    using assms
    by (intro slider_no_error; cases "mcda_weight_serv ss";
        simp add: stored_weights_ok_def weight_fields_def session_get_def)
  from 1 2 3 4 5 show ?thesis
    unfolding read_sliders_def by (auto split: sum.splits)
qed

lemma validate_ok:
  assumes "\<forall>(k, v) \<in> set w. k \<in> set criterion_names \<and> 0 \<le> v"
  shows "validate w = Inr w"
proof -
  from assms have "filter (\<lambda>(k, v). k \<notin> set criterion_names \<or> v < 0) w = []"
    by (auto simp: filter_empty_conv)
  then show ?thesis by (simp add: validate_def)
qed

lemma validate_Inr: "validate w = Inr wv \<Longrightarrow> wv = w"
  by (auto simp: validate_def split: list.splits)

lemma read_sliders_valid: "read_sliders ss ui = Inr w \<Longrightarrow> validate w = Inr w"
  by (drule read_sliders_shape, rule validate_ok) (auto simp: criterion_names_def)

lemma weight_fields_press_reload: "weight_fields (press_reload f ss) = weight_fields ss"
  by (simp add: weight_fields_def press_reload_def)

lemma weight_fields_evaluate_and_show:
  "weight_fields (snd (evaluate_and_show env d w an raw ss)) = weight_fields ss"
  by (auto simp: weight_fields_def evaluate_and_show_def Let_def split: sum.splits)

lemma weight_fields_store:
  "read_sliders ss0 ui = Inr w \<Longrightarrow> weight_fields (store_weights w ss) = map Some (map snd w)"
  by (drule read_sliders_shape) (auto simp: weight_fields_def store_weights_def weight_of_def)

lemma load_data_Inr:
  assumes "load_data env f ss = Inr (raw, ss')"
  shows "sites_data_for_evaluation ss' = Some raw \<and> selected_data_file ss' = Some f \<and>
         evaluated_sites_for_view ss' = evaluated_sites_for_view ss \<and>
         last_weights_hash ss' = last_weights_hash ss \<and> weight_fields ss' = weight_fields ss"
  using assms
  by (auto simp: load_data_def read_facility_file_def weight_fields_def split: option.splits sum.splits if_splits)

lemma weight_fields_view:
  "weight_fields (snd (site_evaluation_view env ui ss)) =
     (case read_sliders ss ui of Inl e \<Rightarrow> weight_fields ss | Inr w \<Rightarrow> map Some (map snd w))"
  unfolding site_evaluation_view_def
  by (auto simp: Let_def weight_fields_store weight_fields_press_reload
        weight_fields_evaluate_and_show
      split: sum.splits dest: load_data_Inr)

lemma view_keeps_weights_ok:
  assumes "stored_weights_ok ss"
  shows "stored_weights_ok (snd (site_evaluation_view env ui ss))"
proof (cases "read_sliders ss ui")
  case (Inl e)
  then show ?thesis using assms by (simp add: stored_weights_ok_def weight_fields_view)
next
  case (Inr w)
  from read_sliders_shape[OF Inr] show ?thesis
    by (auto simp: stored_weights_ok_def weight_fields_view Inr)
qed

lemma runs_keep_weights_ok: "stored_weights_ok ss \<Longrightarrow> stored_weights_ok (runs env uis ss)"
  by (induction uis arbitrary: ss) (auto intro: view_keeps_weights_ok)

lemma empty_session_ok: "stored_weights_ok empty_session"
  by (simp add: stored_weights_ok_def weight_fields_def empty_session_def)

lemma store_weights_idem:
  assumes "weight_fields ss = map Some (map snd w)" and "map fst w = criterion_names"
  shows "store_weights w ss = ss"
proof -
  from assms(2) obtain p a r c s where
    w: "w = [(''population_density'', p), (''accessibility'', a), (''risk_level'', r),
             (''facility_capacity'', c), (''service_coverage'', s)]"
    by (auto simp: criterion_names_def map_eq_Cons_conv)
  show ?thesis using assms(1) unfolding w
    by (cases ss) (simp add: store_weights_def weight_of_def weight_fields_def)
qed

lemma read_sliders_again:
  assumes "read_sliders ss ui = Inr w" and "weight_fields ss' = map Some (map snd w)"
  shows "read_sliders ss' (ui\<lparr>reload_pressed := b\<rparr>) = Inr w"
proof -
  from assms(1) obtain p a r c s where
    p: "slider 0 1 (session_get (mcda_weight_pop ss) (25 / 100)) (5 / 100)
          (pop_density_pick ui) = Inr p" and
    a: "slider 0 1 (session_get (mcda_weight_acc ss) (20 / 100)) (5 / 100)
          (accessibility_pick ui) = Inr a" and
    r: "slider 0 1 (session_get (mcda_weight_risk ss) (15 / 100)) (5 / 100)
          (risk_level_pick ui) = Inr r" and
    c: "slider 0 1 (session_get (mcda_weight_cap ss) (20 / 100)) (5 / 100)
          (facility_capacity_pick ui) = Inr c" and
    s: "slider 0 1 (session_get (mcda_weight_serv ss) (20 / 100)) (5 / 100)
          (service_coverage_pick ui) = Inr s" and
    w: "w = [(''population_density'', p), (''accessibility'', a), (''risk_level'', r),
             (''facility_capacity'', c), (''service_coverage'', s)]"
    unfolding read_sliders_def by (auto split: sum.splits)
  from assms(2) have st: "mcda_weight_pop ss' = Some p" "mcda_weight_acc ss' = Some a"
    "mcda_weight_risk ss' = Some r" "mcda_weight_cap ss' = Some c" "mcda_weight_serv ss' = Some s"
    by (simp_all add: w weight_fields_def)
  show ?thesis
    unfolding read_sliders_def
    using slider_again[OF p] slider_again[OF a] slider_again[OF r] slider_again[OF c]
      slider_again[OF s]
    by (simp add: st session_get_def w)
qed

subsection \<open>The stages of the view\<close>

lemma load_data_stored:
  assumes "sites_data_for_evaluation ss = Some raw" and "selected_data_file ss = Some f"
  shows "load_data env f ss = Inr (raw, ss)"
  using assms by (simp add: load_data_def read_facility_file_def)

lemma evaluate_and_show_displayed:
  assumes "evaluate_and_show env d w an raw ss = (res, ss')" and "displayed res = Some r"
  shows "evaluated_sites_for_view ss' = Some r \<and>
         last_weights_hash ss' = Some (weights_hash env w) \<and>
         sites_data_for_evaluation ss' = sites_data_for_evaluation ss \<and>
         selected_data_file ss' = selected_data_file ss \<and>
         weight_fields ss' = weight_fields ss \<and>
         res = \<lparr>weight_diagnostic = Some d, failure = None, recomputed = recomputed res,
                displayed = Some r\<rparr> \<and>
         (if recomputed res then evaluate_sites env an raw = Inr r
          else ss' = ss \<and> \<not> need_reevaluation (weights_hash env w) ss)"
  using assms
  by (auto simp: evaluate_and_show_def Let_def need_reevaluation_def stopped_def weight_fields_def
      split: if_splits sum.splits)

lemma evaluate_and_show_cached:
  assumes "evaluated_sites_for_view ss = Some r"
    and "last_weights_hash ss = Some (weights_hash env w)"
    and "sites_data_for_evaluation ss = Some raw'"
  shows "evaluate_and_show env d w an raw ss =
           (\<lparr>weight_diagnostic = Some d, failure = None, recomputed = False,
             displayed = Some r\<rparr>, ss)"
  using assms by (simp add: evaluate_and_show_def Let_def need_reevaluation_def)

lemma view_displayed:
  assumes "site_evaluation_view env ui ss = (res, ss')" and "displayed res = Some r"
  shows "\<exists>w an files raw.
           read_sliders ss ui = Inr w \<and> update_weights env w = Inr an \<and>
           list_available_facility_files env = Inr files \<and> files \<noteq> [] \<and>
           sites_data_for_evaluation ss' = Some raw \<and>
           selected_data_file ss' = Some (chosen_file files (file_choice ui)) \<and>
           evaluated_sites_for_view ss' = Some r \<and>
           last_weights_hash ss' = Some (weights_hash env w) \<and>
           weight_fields ss' = map Some (map snd w) \<and>
           res = \<lparr>weight_diagnostic = Some (weight_sum_diagnostic env w), failure = None,
                  recomputed = recomputed res, displayed = Some r\<rparr> \<and>
           (recomputed res \<longrightarrow> evaluate_sites env an raw = Inr r) \<and>
           (reload_pressed ui \<longrightarrow>
              recomputed res \<and>
              load_specific_facility_data env (chosen_file files (file_choice ui)) = Inr raw)"
proof -
  from assms obtain w where w: "read_sliders ss ui = Inr w"
    by (auto simp: site_evaluation_view_def stopped_def split: sum.splits)
  from assms w obtain an where an: "update_weights env w = Inr an"
    by (auto simp: site_evaluation_view_def stopped_def Let_def split: sum.splits)
  from assms w an obtain files where
    files: "list_available_facility_files env = Inr files" "files \<noteq> []"
    by (auto simp: site_evaluation_view_def stopped_def Let_def split: sum.splits if_splits)
  define f where "f = chosen_file files (file_choice ui)"
  define ss2 where
    "ss2 = (if reload_pressed ui then press_reload f (store_weights w ss)
            else store_weights w ss)"
  have wf2: "weight_fields ss2 = map Some (map snd w)"
    by (simp add: ss2_def weight_fields_press_reload weight_fields_store[OF w])
  from assms w an files obtain raw ss3 where ld: "load_data env f ss2 = Inr (raw, ss3)"
    and ev: "evaluate_and_show env (weight_sum_diagnostic env w) w an raw ss3 = (res, ss')"
    by (auto simp: site_evaluation_view_def stopped_def Let_def f_def ss2_def
        split: sum.splits if_splits)
  have rl: "recomputed res \<and> load_specific_facility_data env f = Inr raw"
    if "reload_pressed ui"
  proof -
    from that have c: "sites_data_for_evaluation ss2 = None" "evaluated_sites_for_view ss2 = None"
      by (simp_all add: ss2_def press_reload_def)
    from ld c have 1: "load_specific_facility_data env f = Inr raw"
      by (auto simp: load_data_def read_facility_file_def split: sum.splits if_splits)
    from load_data_Inr[OF ld] c have "need_reevaluation (weights_hash env w) ss3"
      by (simp add: need_reevaluation_def)
    with evaluate_and_show_displayed[OF ev assms(2)] have "recomputed res"
      by (auto split: if_splits)
    with 1 show ?thesis by simp
  qed
  from load_data_Inr[OF ld] evaluate_and_show_displayed[OF ev assms(2)] wf2 rl
  show ?thesis using w an files
    by (intro exI[of _ w] exI[of _ an] exI[of _ files] exI[of _ raw])
       (auto simp: f_def split: if_splits)
qed

lemma weights_hash_mset:
  "mset w' = mset w \<Longrightarrow> weights_hash env w' = weights_hash env w"
proof -
  assume "mset w' = mset w"
  then have "sort w' = sort w"
    by (metis mset_sort sorted_sort properties_for_sort)
  then show ?thesis by (simp add: weights_hash_def)
qed

subsection \<open>The ranking\<close>

lemma ranks_before_key: "ranks_before f a b \<Longrightarrow> f a \<le> f b"
  by (auto simp: ranks_before_def)

lemma ranks_before_asym: "ranks_before f a b \<Longrightarrow> \<not> ranks_before f b a"
  by (auto simp: ranks_before_def)

lemma insort_key_ranks_before:
  assumes "sorted_wrt (ranks_before f) ys" and "\<forall>y \<in> set ys. x < y"
  shows "sorted_wrt (ranks_before f) (insort_key f x ys)"
  using assms
proof (induction ys)
  case Nil
  then show ?case by simp
next
  case (Cons y ys)
  show ?case
  proof (cases "f x \<le> f y")
    case True
    have "ranks_before f x z" if "z \<in> set (y # ys)" for z
    proof -
      have "f y \<le> f z" using that Cons.prems(1) by (auto dest: ranks_before_key)
      moreover have "x < z" using that Cons.prems(2) by auto
      ultimately show ?thesis using True by (auto simp: ranks_before_def)
    qed
    then show ?thesis using True Cons.prems(1) by simp
  next
    case False
    then have "ranks_before f y x" by (simp add: ranks_before_def)
    moreover have "sorted_wrt (ranks_before f) (insort_key f x ys)"
      using Cons by simp
    ultimately show ?thesis using False Cons.prems(1) by (auto simp: set_insort_key)
  qed
qed

lemma sort_key_ranks_before:
  "sorted_wrt (<) xs \<Longrightarrow> sorted_wrt (ranks_before f) (sort_key f xs)"
proof (induction xs)
  case Nil
  then show ?case by simp
next
  case (Cons x xs)
  have "sort_key f (x # xs) = insort_key f x (sort_key f xs)"
    by (simp add: sort_key_def)
  moreover have "\<forall>y \<in> set (sort_key f xs). x < y" using Cons.prems by simp
  ultimately show ?case using Cons by (simp add: insort_key_ranks_before)
qed

lemma rank_order_sorted:
  "sorted_wrt (ranks_before (\<lambda>i. - (scores ! i))) (rank_order scores)"
  unfolding rank_order_def by (rule sort_key_ranks_before) simp

lemma rank_order_set: "set (rank_order scores) = {0..<length scores}"
  by (simp add: rank_order_def)

lemma rank_order_distinct: "distinct (rank_order scores)"
  by (simp add: rank_order_def)

lemma rank_order_length: "length (rank_order scores) = length scores"
  by (simp add: rank_order_def)

lemma place_less: "i \<in> set xs \<Longrightarrow> place i xs < length xs"
  by (induction xs) auto

lemma nth_place: "i \<in> set xs \<Longrightarrow> xs ! place i xs = i"
  by (induction xs) auto

lemma place_nth: "distinct xs \<Longrightarrow> k < length xs \<Longrightarrow> place (xs ! k) xs = k"
proof (induction xs arbitrary: k)
  case Nil
  then show ?case by simp
next
  case (Cons x xs)
  then show ?case by (cases k) auto
qed

lemma place_inj: "i \<in> set xs \<Longrightarrow> j \<in> set xs \<Longrightarrow> place i xs = place j xs \<Longrightarrow> i = j"
  by (metis nth_place)

lemma place_before:
  assumes "sorted_wrt R xs" "i \<in> set xs" "j \<in> set xs" "place i xs < place j xs"
  shows "R i j"
proof -
  have "R (xs ! place i xs) (xs ! place j xs)"
    using assms place_less[of j xs] by (auto simp: sorted_wrt_iff_nth_less)
  then show ?thesis using assms by (simp add: nth_place)
qed

lemma place_rank_order:
  assumes "i < length scores" "j < length scores"
  shows "place i (rank_order scores) < place j (rank_order scores) \<longleftrightarrow>
         scores ! i > scores ! j \<or> (scores ! i = scores ! j \<and> i < j)"
proof -
  let ?f = "\<lambda>i. - (scores ! i)" and ?o = "rank_order scores"
  have mem: "i \<in> set ?o" "j \<in> set ?o" using assms by (simp_all add: rank_order_set)
  have iff: "ranks_before ?f i j \<longleftrightarrow>
             scores ! i > scores ! j \<or> (scores ! i = scores ! j \<and> i < j)"
    by (auto simp: ranks_before_def)
  show ?thesis
  proof
    assume "place i ?o < place j ?o"
    then have "ranks_before ?f i j" using place_before[OF rank_order_sorted mem] by simp
    then show "scores ! i > scores ! j \<or> (scores ! i = scores ! j \<and> i < j)"
      using iff by simp
  next
    assume a: "scores ! i > scores ! j \<or> (scores ! i = scores ! j \<and> i < j)"
    then have rb: "ranks_before ?f i j" using iff by simp
    have ne: "i \<noteq> j" using a by auto
    show "place i ?o < place j ?o"
    proof (rule ccontr)
      assume "\<not> place i ?o < place j ?o"
      then have "place j ?o < place i ?o \<or> place j ?o = place i ?o" by arith
      then show False
      proof
        assume "place j ?o < place i ?o"
        then have "ranks_before ?f j i"
          using place_before[OF rank_order_sorted mem(2) mem(1)] by simp
        then show False using rb ranks_before_asym by blast
      next
        assume "place j ?o = place i ?o"
        then show False using place_inj[OF mem(2) mem(1)] ne by simp
      qed
    qed
  qed
qed

lemma length_ranks: "length (ranks scores) = length scores"
  by (simp add: ranks_def)

lemma nth_ranks: "i < length scores \<Longrightarrow> ranks scores ! i = Suc (place i (rank_order scores))"
  by (simp add: ranks_def)

lemma ranks_perm: "mset (ranks scores) = mset [1..<Suc (length scores)]"
proof -
  let ?o = "rank_order scores" and ?n = "length scores"
  have "mset (map (\<lambda>i. place i ?o) ?o) = mset (map (\<lambda>i. place i ?o) [0..<?n])"
  proof -
    have "mset ?o = mset [0..<?n]"
      by (simp add: rank_order_def)
    then show ?thesis by (metis mset_map)
  qed
  moreover have "map (\<lambda>i. place i ?o) ?o = [0..<?n]"
    by (rule nth_equalityI) (simp_all add: rank_order_length place_nth rank_order_distinct)
  ultimately have "mset (map (\<lambda>i. place i ?o) [0..<?n]) = mset [0..<?n]" by simp
  then have "mset (map Suc (map (\<lambda>i. place i ?o) [0..<?n])) = mset (map Suc [0..<?n])"
    by (metis mset_map)
  then show ?thesis by (simp add: ranks_def map_Suc_upt o_def)
qed

subsection \<open>The scorer\<close>

lemma score_Inr:
  assumes "batch \<noteq> []"
  shows "\<exists>r. score batch w = Inr r \<and> length r = length batch \<and>
           (\<forall>i<length batch.
              raw_site (r ! i) = raw_site (batch ! i) \<and>
              normalized (r ! i) = normalized (batch ! i) \<and>
              total_score (r ! i) = weighted_total w (batch ! i) \<and>
              rank (r ! i) = ranks (map (weighted_total w) batch) ! i \<and>
              recommended (r ! i) = (recommendation_threshold \<le> weighted_total w (batch ! i)))"
  using assms by (simp add: score_def length_ranks)

lemma score_nonempty: "score batch w = Inr r \<Longrightarrow> batch \<noteq> []"
  by (auto simp: score_def split: if_splits)

subsection \<open>The normalizer\<close>

lemma present_values_mem:
  "s \<in> set batch \<Longrightarrow> raw_value c s = Some v \<Longrightarrow> v \<in> set (present_values c batch)"
  by (force simp: present_values_def)

lemma column_range_min_max:
  assumes "present_values c batch \<noteq> []"
  shows "column_range c batch = Some (batch_min c batch, batch_max c batch)"
proof -
  from assms obtain v vs where vs: "present_values c batch = v # vs"
    by (cases "present_values c batch") auto
  have "Min (set (v # vs)) = fold min vs v" "Max (set (v # vs)) = fold max vs v"
    by (rule Min.set_eq_fold, rule Max.set_eq_fold)
  then show ?thesis
    by (simp add: column_range_def batch_min_def batch_max_def vs)
qed

lemma batch_min_le: "v \<in> set (present_values c batch) \<Longrightarrow> batch_min c batch \<le> v"
  by (simp add: batch_min_def)

lemma batch_max_ge: "v \<in> set (present_values c batch) \<Longrightarrow> v \<le> batch_max c batch"
  by (simp add: batch_max_def)

lemma normalize_value_present:
  assumes "s \<in> set batch" and "raw_value c s = Some v"
  shows "normalize_value c batch s =
           (if batch_max c batch = batch_min c batch then 1 / 2
            else if lower_is_better c
              then (batch_max c batch - v) / (batch_max c batch - batch_min c batch)
              else (v - batch_min c batch) / (batch_max c batch - batch_min c batch))"
proof -
  have "present_values c batch \<noteq> []" using present_values_mem[OF assms] by auto
  then show ?thesis
    by (simp add: normalize_value_def assms(2) column_range_min_max)
qed

lemma normalize_value_missing: "raw_value c s = None \<Longrightarrow> normalize_value c batch s = 1 / 2"
  by (simp add: normalize_value_def)

lemma raw_value_Some_criterion: "raw_value c s = Some v \<Longrightarrow> c \<in> set criterion_names"
  by (auto simp: raw_value_def criterion_names_def split: if_splits)

lemma present_values_filter:
  "present_values c (filter (\<lambda>t. raw_value c t \<noteq> None) batch) = present_values c batch"
  by (induction batch) (auto simp: present_values_def)

lemma normalize_value_filter:
  "normalize_value c (filter (\<lambda>t. raw_value c t \<noteq> None) batch) s = normalize_value c batch s"
  by (simp only: normalize_value_def column_range_def present_values_filter)

lemma column_normalized:
  "c \<in> set cs \<Longrightarrow> column (map (\<lambda>c. (c, f c)) cs) c = f c"
proof -
  assume "c \<in> set cs"
  then have "map_of (map (\<lambda>c. (c, f c)) cs) c = Some (f c)"
    by (induction cs) auto
  then show ?thesis by (simp add: column_def)
qed

lemma weighted_total_normalize:
  "weighted_total w \<lparr>raw_site = s, normalized = map (\<lambda>c. (c, normalize_value c batch s)) (map fst w)\<rparr> =
     (\<Sum>(c, wt) \<leftarrow> w. wt * normalize_value c batch s)"
proof -
  have "map (\<lambda>(c, wt). wt * column (map (\<lambda>c. (c, normalize_value c batch s)) (map fst w)) c) w =
        map (\<lambda>(c, wt). wt * normalize_value c batch s) w"
  proof (rule map_cong)
    fix x assume x: "x \<in> set w"
    then have "fst x \<in> set (map fst w)" by simp
    then show "(case x of (c, wt) \<Rightarrow>
                  wt * column (map (\<lambda>c. (c, normalize_value c batch s)) (map fst w)) c) =
               (case x of (c, wt) \<Rightarrow> wt * normalize_value c batch s)"
      by (cases x) (simp add: column_normalized del: map_map)
  qed (rule refl)
  then show ?thesis
    unfolding weighted_total_def by (simp only: normalized_site.select_convs)
qed

lemma evaluate_Inr:
  assumes "validate w = Inr w" and "batch \<noteq> []"
  shows "\<exists>r. evaluate batch w = Inr r \<and> length r = length batch \<and>
           (\<forall>i<length batch.
              raw_site (r ! i) = batch ! i \<and>
              normalized (r ! i) = map (\<lambda>c. (c, normalize_value c batch (batch ! i))) (map fst w) \<and>
              total_score (r ! i) = (\<Sum>(c, wt) \<leftarrow> w. wt * normalize_value c batch (batch ! i)))"
proof -
  let ?nb = "normalize_batch batch (map fst w)"
  have ne: "?nb \<noteq> []" and len: "length ?nb = length batch" using assms(2) by (simp_all add: normalize_batch_def)
  have ev: "evaluate batch w = score ?nb w"
    by (simp add: evaluate_def assms)
  have nth: "?nb ! i = \<lparr>raw_site = batch ! i, normalized = map (\<lambda>c. (c, normalize_value c batch (batch ! i))) (map fst w)\<rparr>"
    if "i < length batch" for i using that by (simp add: normalize_batch_def)
  from score_Inr[OF ne, of w] obtain r where r: "score ?nb w = Inr r" "length r = length ?nb"
    and f: "\<And>i. i < length ?nb \<Longrightarrow> raw_site (r ! i) = raw_site (?nb ! i) \<and>
              normalized (r ! i) = normalized (?nb ! i) \<and>
              total_score (r ! i) = weighted_total w (?nb ! i)"
    by blast
  have "raw_site (r ! i) = batch ! i \<and>
              normalized (r ! i) = map (\<lambda>c. (c, normalize_value c batch (batch ! i))) (map fst w) \<and>
              total_score (r ! i) = (\<Sum>(c, wt) \<leftarrow> w. wt * normalize_value c batch (batch ! i))"
    if "i < length batch" for i
    using f[of i] that by (simp add: len nth weighted_total_normalize del: map_map)
  then show ?thesis using r ev len by auto
qed

subsection \<open>The weight-sum diagnostic\<close>

lemma on_grid_iff: "on_grid v \<longleftrightarrow> (\<exists>n::int. 20 * v = of_int n)"
  unfolding on_grid_def by (metis floor_of_int)

lemma on_grid_add: "on_grid a \<Longrightarrow> on_grid b \<Longrightarrow> on_grid (a + b)"
proof -
  assume "on_grid a" "on_grid b"
  then obtain m n :: int where "20 * a = of_int m" "20 * b = of_int n"
    unfolding on_grid_iff by blast
  then have "20 * (a + b) = of_int (m + n)" by (simp add: algebra_simps)
  then show ?thesis unfolding on_grid_iff by blast
qed

lemma on_grid_gap:
  assumes "on_grid t"
  shows "t = 1 \<or> \<bar>t - 1\<bar> \<ge> 1 / 20"
proof -
  from assms obtain n :: int where n: "20 * t = of_int n"
    unfolding on_grid_iff by blast
  then have t: "t = of_int n / 20" by simp
  show ?thesis
  proof (cases "n = 20")
    case True
    then show ?thesis by (simp add: t)
  next
    case False
    then have "\<bar>n - 20\<bar> \<ge> 1" by simp
    then have "(of_int \<bar>n - 20\<bar> :: rat) \<ge> 1" by linarith
    then have a: "\<bar>of_int n - 20 :: rat\<bar> \<ge> 1" by simp
    from a n have "\<bar>t - 1\<bar> \<ge> 1 / 20" by linarith
    then show ?thesis by (rule disjI2)
  qed
qed

lemma slider_grid:
  assumes "slider 0 1 val (5 / 100) pick = Inr v" and "on_grid val"
  shows "on_grid v"
proof (cases pick)
  case None
  then show ?thesis using assms by (auto simp: slider_def split: if_splits)
next
  case (Some k)
  then have v: "v = min 1 (of_nat k * (5 / 100))"
    using assms(1) by (auto simp: slider_def split: if_splits)
  show ?thesis
  proof (cases "k \<ge> 20")
    case True
    then have "(1 :: rat) \<le> of_nat k * (5 / 100)" by simp
    then have "v = 1" by (simp add: v)
    then show ?thesis by (simp add: on_grid_def)
  next
    case False
    then have "of_nat k * (5 / 100) \<le> (1 :: rat)" by simp
    then have "20 * v = of_int (int k)" by (simp add: v min_def)
    then show ?thesis unfolding on_grid_iff by blast
  qed
qed

lemma session_get_grid:
  "(case stored of None \<Rightarrow> True | Some v \<Rightarrow> on_grid v) \<Longrightarrow> on_grid dflt \<Longrightarrow>
   on_grid (session_get stored dflt)"
  by (cases stored) (simp_all add: session_get_def)

lemma read_sliders_grid:
  assumes "stored_on_grid ss" and "read_sliders ss ui = Inr w"
  shows "\<forall>v \<in> set (map snd w). on_grid v"
proof -
  from assms(2) obtain p a r c s where
    p: "slider 0 1 (session_get (mcda_weight_pop ss) (25 / 100)) (5 / 100)
          (pop_density_pick ui) = Inr p" and
    a: "slider 0 1 (session_get (mcda_weight_acc ss) (20 / 100)) (5 / 100)
          (accessibility_pick ui) = Inr a" and
    r: "slider 0 1 (session_get (mcda_weight_risk ss) (15 / 100)) (5 / 100)
          (risk_level_pick ui) = Inr r" and
    c: "slider 0 1 (session_get (mcda_weight_cap ss) (20 / 100)) (5 / 100)
          (facility_capacity_pick ui) = Inr c" and
    s: "slider 0 1 (session_get (mcda_weight_serv ss) (20 / 100)) (5 / 100)
          (service_coverage_pick ui) = Inr s" and
    w: "w = [(''population_density'', p), (''accessibility'', a), (''risk_level'', r),
             (''facility_capacity'', c), (''service_coverage'', s)]"
    unfolding read_sliders_def by (auto split: sum.splits)
  have d: "on_grid (25 / 100)" "on_grid (20 / 100)" "on_grid (15 / 100)"
    by (simp_all add: on_grid_def)
  from assms(1) have st:
    "case mcda_weight_pop ss of None \<Rightarrow> True | Some v \<Rightarrow> on_grid v"
    "case mcda_weight_acc ss of None \<Rightarrow> True | Some v \<Rightarrow> on_grid v"
    "case mcda_weight_risk ss of None \<Rightarrow> True | Some v \<Rightarrow> on_grid v"
    "case mcda_weight_cap ss of None \<Rightarrow> True | Some v \<Rightarrow> on_grid v"
    "case mcda_weight_serv ss of None \<Rightarrow> True | Some v \<Rightarrow> on_grid v"
    by (simp_all add: stored_on_grid_def weight_fields_def)
  have "on_grid p" by (rule slider_grid[OF p session_get_grid[OF st(1) d(1)]])
  moreover have "on_grid a" by (rule slider_grid[OF a session_get_grid[OF st(2) d(2)]])
  moreover have "on_grid r" by (rule slider_grid[OF r session_get_grid[OF st(3) d(3)]])
  moreover have "on_grid c" by (rule slider_grid[OF c session_get_grid[OF st(4) d(2)]])
  moreover have "on_grid s" by (rule slider_grid[OF s session_get_grid[OF st(5) d(2)]])
  ultimately show ?thesis by (simp add: w)
qed

lemma view_keeps_on_grid:
  assumes "stored_on_grid ss"
  shows "stored_on_grid (snd (site_evaluation_view env ui ss))"
proof (cases "read_sliders ss ui")
  case (Inl e)
  then show ?thesis using assms by (simp add: stored_on_grid_def weight_fields_view)
next
  case (Inr w)
  from read_sliders_grid[OF assms Inr] show ?thesis
    by (auto simp: stored_on_grid_def weight_fields_view Inr)
qed

lemma runs_keep_on_grid: "stored_on_grid ss \<Longrightarrow> stored_on_grid (runs env uis ss)"
  by (induction uis arbitrary: ss) (auto intro: view_keeps_on_grid)

lemma diagnostic_computed:
  "(\<exists>t. weight_sum_diagnostic env w = Warning t) \<longleftrightarrow>
   \<bar>float_sub env (float_sum env (map snd w)) 1\<bar> > double_0_01"
  by (simp add: weight_sum_diagnostic_def total_weight_def)

lemma diagnostic_exact:
  assumes acc: "float_accurate env" and w: "read_sliders ss ui = Inr w"
    and grid: "stored_on_grid ss"
  shows "(\<exists>t. weight_sum_diagnostic env w = Warning t) \<longleftrightarrow>
         \<bar>sum_list (map snd w) - 1\<bar> > 1 / 100"
proof -
  define vs where "vs = map snd w"
  from read_sliders_shape[OF w] obtain p a r c s where
    w': "w = [(''population_density'', p), (''accessibility'', a), (''risk_level'', r),
              (''facility_capacity'', c), (''service_coverage'', s)]" and
    b: "0 \<le> p" "p \<le> 1" "0 \<le> a" "a \<le> 1" "0 \<le> r" "r \<le> 1" "0 \<le> c" "c \<le> 1"
       "0 \<le> s" "s \<le> 1"
    by blast
  have vs: "vs = [p, a, r, c, s]" by (simp add: vs_def w')
  have g: "on_grid p" "on_grid a" "on_grid r" "on_grid c" "on_grid s"
    using read_sliders_grid[OF grid w] by (simp_all add: w')
  define T where "T = sum_list vs"
  have T: "T = p + a + r + c + s" by (simp add: T_def vs)
  have "on_grid T" unfolding T by (intro on_grid_add g)
  then have gap: "T = 1 \<or> \<bar>T - 1\<bar> \<ge> 1 / 20" by (rule on_grid_gap)
  have rng: "0 \<le> T" "T \<le> 5" using b by (simp_all add: T)
  have "length vs = 5 \<and> (\<forall>v \<in> set vs. 0 \<le> v \<and> v \<le> 1)" using b by (simp add: vs)
  with acc have e1: "\<bar>float_sum env vs - T\<bar> \<le> 1 / 1000"
    unfolding float_accurate_def T_def by blast
  then have "\<bar>float_sum env vs\<bar> \<le> 6" using rng by linarith
  with acc have e2: "\<bar>float_sub env (float_sum env vs) 1 - (float_sum env vs - 1)\<bar> \<le> 1 / 1000"
    unfolding float_accurate_def by blast
  define D where "D = float_sub env (float_sum env vs) 1"
  have e: "\<bar>D - (T - 1)\<bar> \<le> 2 / 1000" using e1 e2 unfolding D_def by linarith
  have tol: "1 / 200 < double_0_01" "double_0_01 < 1 / 50"
    by (simp_all add: double_0_01_def)
  have "\<bar>D\<bar> > double_0_01 \<longleftrightarrow> \<bar>T - 1\<bar> > 1 / 100"
    using gap e tol by linarith
  then show ?thesis
    unfolding diagnostic_computed D_def T_def vs_def .
qed

subsection \<open>A run of the view on the scoring core\<close>

lemma load_data_ok:
  assumes "load_specific_facility_data env f = Inr raw0" and "raw0 \<noteq> []"
    and "\<forall>raw. sites_data_for_evaluation ss = Some raw \<longrightarrow> raw \<noteq> []"
  shows "\<exists>raw ss'. load_data env f ss = Inr (raw, ss') \<and> raw \<noteq> []"
  using assms
  by (auto simp: load_data_def read_facility_file_def split: option.splits)

lemma core_view_shows:
  assumes env: "env = core_collaborators files load h fsum fsub"
    and w: "read_sliders ss ui = Inr w"
    and files: "files \<noteq> []"
    and load: "load (chosen_file files (file_choice ui)) = Inr raw0" "raw0 \<noteq> []"
    and stored: "\<forall>raw. sites_data_for_evaluation ss = Some raw \<longrightarrow> raw \<noteq> []"
  shows "\<exists>r raw.
           fst (site_evaluation_view env ui ss) =
             \<lparr>weight_diagnostic = Some (weight_sum_diagnostic env w), failure = None,
              recomputed = recomputed (fst (site_evaluation_view env ui ss)),
              displayed = Some r\<rparr> \<and>
           sites_data_for_evaluation (snd (site_evaluation_view env ui ss)) = Some raw \<and>
           (recomputed (fst (site_evaluation_view env ui ss)) \<longrightarrow> evaluate raw w = Inr r) \<and>
           (reload_pressed ui \<or> last_weights_hash ss \<noteq> Some (weights_hash env w) \<longrightarrow>
              recomputed (fst (site_evaluation_view env ui ss)))"
proof -
  define f where "f = chosen_file files (file_choice ui)"
  define ss1 where "ss1 = store_weights w ss"
  define ss2 where "ss2 = (if reload_pressed ui then press_reload f ss1 else ss1)"
  have c: "update_weights env w = Inr w" "list_available_facility_files env = Inr files"
    "load_specific_facility_data env f = Inr raw0"
    "evaluate_sites env = (\<lambda>wv raw. evaluate raw wv)"
    using read_sliders_valid[OF w] load(1) by (simp_all add: env core_collaborators_def f_def)
  have s2: "\<forall>raw. sites_data_for_evaluation ss2 = Some raw \<longrightarrow> raw \<noteq> []"
    "last_weights_hash ss2 = last_weights_hash ss"
    "reload_pressed ui \<longrightarrow> evaluated_sites_for_view ss2 = None"
    using stored by (simp_all add: ss2_def ss1_def press_reload_def store_weights_def)
  from load_data_ok[OF c(3) load(2) s2(1)] obtain raw ss3 where
    ld: "load_data env f ss2 = Inr (raw, ss3)" and ne: "raw \<noteq> []"
    by blast
  note l3 = load_data_Inr[OF ld]
  from evaluate_Inr[OF read_sliders_valid[OF w] ne] obtain r1 where
    r1: "evaluate raw w = Inr r1" by blast
  have v: "site_evaluation_view env ui ss =
             evaluate_and_show env (weight_sum_diagnostic env w) w w raw ss3"
    using files
    by (simp add: site_evaluation_view_def w c(1,2) Let_def ld
        flip: f_def ss1_def ss2_def)
  show ?thesis
  proof (cases "need_reevaluation (weights_hash env w) ss3")
    case True
    then have "site_evaluation_view env ui ss =
        (\<lparr>weight_diagnostic = Some (weight_sum_diagnostic env w), failure = None,
          recomputed = True, displayed = Some r1\<rparr>,
         ss3\<lparr>evaluated_sites_for_view := Some r1,
             last_weights_hash := Some (weights_hash env w)\<rparr>)"
      by (simp add: v evaluate_and_show_def Let_def c(4) r1)
    then show ?thesis using l3 r1 by simp
  next
    case False
    then obtain r0 where r0: "evaluated_sites_for_view ss3 = Some r0"
      and h: "last_weights_hash ss3 = Some (weights_hash env w)"
      by (auto simp: need_reevaluation_def)
    from False have "site_evaluation_view env ui ss =
        (\<lparr>weight_diagnostic = Some (weight_sum_diagnostic env w), failure = None,
          recomputed = False, displayed = Some r0\<rparr>, ss3)"
      by (simp add: v evaluate_and_show_def Let_def r0)
    moreover have "\<not> reload_pressed ui" using r0 l3 s2(3) by auto
    moreover have "last_weights_hash ss = Some (weights_hash env w)" using h l3 s2(2) by simp
    ultimately show ?thesis using l3 by simp
  qed
qed

subsection \<open>Writing and splitting lines\<close>

lemmas csv_chars = comma_def dquote_def newline_def creturn_def

lemma escape_quotes_Cons:
  "escape_quotes (c # s) = (if c = dquote then [dquote, dquote] else [c]) @ escape_quotes s"
  by (simp add: escape_quotes_def)

lemma read_quoted:
  "read_chars InQuotes acc row (escape_quotes s @ dquote # rest) =
   read_chars QuoteInQuotes (acc @ s) row rest"
proof (induction s arbitrary: acc)
  case Nil
  then show ?case by (simp add: escape_quotes_def)
next
  case (Cons c s)
  show ?case
  proof (cases "c = dquote")
    case True
    then show ?thesis using Cons[of "acc @ [dquote]"] by (simp add: escape_quotes_Cons)
  next
    case False
    then show ?thesis using Cons[of "acc @ [c]"] by (simp add: escape_quotes_Cons)
  qed
qed

lemma read_unquoted:
  assumes "\<forall>c \<in> set s. c \<noteq> comma \<and> c \<noteq> newline \<and> c \<noteq> creturn"
  shows "read_chars InField acc row (s @ rest) = read_chars InField (acc @ s) row rest"
  using assms
proof (induction s arbitrary: acc)
  case Nil
  then show ?case by simp
next
  case (Cons c s)
  then show ?case using Cons.IH[of "acc @ [c]"] by simp
qed

lemma read_field_comma:
  assumes "creturn \<notin> set f"
  shows "read_chars StartField [] row (write_field f @ comma # rest) =
         read_chars StartField [] (row @ [f]) rest"
proof (cases "needs_quotes f")
  case True
  then have "write_field f @ comma # rest = dquote # (escape_quotes f @ dquote # comma # rest)"
    by (simp add: write_field_def)
  then show ?thesis by (simp add: read_quoted) (simp add: csv_chars)
next
  case False
  then have w: "write_field f = f" and
    p: "\<forall>c \<in> set f. c \<noteq> comma \<and> c \<noteq> newline \<and> c \<noteq> creturn \<and> c \<noteq> dquote"
    using assms by (auto simp: write_field_def needs_quotes_def)
  show ?thesis
  proof (cases f)
    case Nil
    with w have "write_field [] = []" by simp
    then show ?thesis by (simp add: Nil csv_chars)
  next
    case (Cons a s)
    then have "read_chars StartField [] row (f @ comma # rest) =
               read_chars InField [a] row (s @ comma # rest)"
      using p by simp
    also have "\<dots> = read_chars InField ([a] @ s) row (comma # rest)"
      using p Cons by (intro read_unquoted) simp
    also have "\<dots> = read_chars StartField [] (row @ [f]) rest"
      by (simp add: Cons) (simp add: csv_chars)
    finally show ?thesis by (simp add: w)
  qed
qed

lemma read_field_newline:
  assumes "creturn \<notin> set f" and "f \<noteq> [] \<or> row \<noteq> []"
  shows "read_chars StartField [] row (write_field f @ newline # rest) =
         end_row (row @ [f]) (read_chars StartField [] [] rest)"
proof (cases "needs_quotes f")
  case True
  then have "write_field f @ newline # rest =
             dquote # (escape_quotes f @ dquote # newline # rest)"
    by (simp add: write_field_def)
  then show ?thesis by (simp add: read_quoted) (simp add: csv_chars)
next
  case False
  then have w: "write_field f = f" and
    p: "\<forall>c \<in> set f. c \<noteq> comma \<and> c \<noteq> newline \<and> c \<noteq> creturn \<and> c \<noteq> dquote"
    using assms by (auto simp: write_field_def needs_quotes_def)
  show ?thesis
  proof (cases f)
    case Nil
    with w have "write_field [] = []" by simp
    then show ?thesis using assms(2) by (simp add: Nil)
  next
    case (Cons a s)
    then have "read_chars StartField [] row (f @ newline # rest) =
               read_chars InField [a] row (s @ newline # rest)"
      using p by simp
    also have "\<dots> = read_chars InField ([a] @ s) row (newline # rest)"
      using p Cons by (intro read_unquoted) simp
    also have "\<dots> = end_row (row @ [f]) (read_chars StartField [] [] rest)"
      by (simp add: Cons)
    finally show ?thesis by (simp add: w)
  qed
qed

lemma read_fields:
  assumes "fs \<noteq> []" and "\<forall>f \<in> set fs. creturn \<notin> set f" and "row \<noteq> [] \<or> fs \<noteq> [[]]"
  shows "read_chars StartField [] row (join_fields (map write_field fs) @ newline # rest) =
         end_row (row @ fs) (read_chars StartField [] [] rest)"
  using assms
proof (induction fs arbitrary: row rule: list_nonempty_induct)
  case (single f)
  then show ?case by (simp, intro read_field_newline) auto
next
  case (cons f fs)
  then obtain g gs where fs: "fs = g # gs" by (cases fs) auto
  have "read_chars StartField [] row
          (join_fields (map write_field (f # fs)) @ newline # rest) =
        read_chars StartField [] (row @ [f])
          (join_fields (map write_field fs) @ newline # rest)"
    using cons.prems(1) by (simp add: fs read_field_comma)
  also have "\<dots> = end_row ((row @ [f]) @ fs) (read_chars StartField [] [] rest)"
    using cons.prems(1) by (intro cons.IH) simp_all
  finally show ?case by simp
qed

lemma read_row:
  assumes "fs \<noteq> []" and "\<forall>f \<in> set fs. creturn \<notin> set f"
  shows "read_chars StartField [] [] (write_row fs @ rest) =
         end_row fs (read_chars StartField [] [] rest)"
proof (cases "fs = [[]]")
  case True
  then show ?thesis by (simp add: write_row_def) (simp add: csv_chars)
next
  case False
  then show ?thesis using read_fields[OF assms, of "[]" rest] by (simp add: write_row_def)
qed

lemma read_rows:
  assumes "\<forall>fs \<in> set rows. fs \<noteq> [] \<and> (\<forall>f \<in> set fs. creturn \<notin> set f)"
  shows "read_chars StartField [] [] (concat (map write_row rows)) = Some rows"
  using assms
proof (induction rows)
  case Nil
  then show ?case by simp
next
  case (Cons fs rows)
  then show ?case by (simp add: read_row end_row_def)
qed

subsection \<open>Reading back what was written\<close>

lemma render_simps:
  "render_cell nt (TextCell s) = s"
  "render_cell nt (IntCell i) = repr_int nt i"
  "render_cell nt (FloatCell x) = repr_float nt x"
  "render_cell nt MissingCell = []"
  by (simp_all add: render_cell_def)

lemma is_na_empty: "is_na []"
  by (simp add: is_na_def na_values_def)

lemma render_bool_not_na: "\<not> is_na (render_cell nt (BoolCell b))"
  by (simp add: is_na_def na_values_def render_cell_def)

lemma render_bool_is_bool: "is_bool (render_cell nt (BoolCell b))"
  by (simp add: is_bool_def true_values_def false_values_def render_cell_def)

lemma render_bool_true: "render_cell nt (BoolCell b) \<in> set true_values \<longleftrightarrow> b"
  by (simp add: true_values_def render_cell_def)

lemma convert_missing: "convert nt k (render_cell nt MissingCell) = MissingCell"
  by (simp add: convert_def render_cell_def is_na_empty)

lemma infer_kind_map:
  "infer_kind nt (map (render_cell nt) cs) =
     (if \<forall>c \<in> set cs. is_na (render_cell nt c) then AllMissing
      else if \<forall>c \<in> set cs. \<not> is_na (render_cell nt c) \<and> parse_int nt (render_cell nt c) \<noteq> None
        then Ints
      else if \<forall>c \<in> set cs. is_na (render_cell nt c) \<or> is_number nt (render_cell nt c)
        then Floats
      else if \<forall>c \<in> set cs. is_na (render_cell nt c) \<or> is_bool (render_cell nt c) then Bools
      else Texts)"
  by (simp add: infer_kind_def)

lemma convert_column:
  assumes all: "\<forall>c \<in> set cs. fits ty c \<and> reads_back nt c" and c: "c \<in> set cs"
  shows "convert nt (infer_kind nt (map (render_cell nt) cs)) (render_cell nt c) = c"
proof (cases "c = MissingCell")
  case True
  then show ?thesis by (simp add: convert_missing)
next
  case False
  show ?thesis
  proof (cases ty)
    case IntColumn
    have a: "\<exists>i. d = IntCell i \<and> \<not> is_na (repr_int nt i) \<and> parse_int nt (repr_int nt i) = Some i"
      if "d \<in> set cs" for d
      using all that IntColumn by (cases d) (auto simp: fits_def reads_back_def)
    from a[OF c] obtain i where i: "c = IntCell i" "\<not> is_na (repr_int nt i)"
      "parse_int nt (repr_int nt i) = Some i" by blast
    have na: "\<not> is_na (render_cell nt c)" using i by (simp add: render_simps)
    have 1: "\<not> (\<forall>d \<in> set cs. is_na (render_cell nt d))"
      using c na by blast
    have 2: "\<forall>d \<in> set cs. \<not> is_na (render_cell nt d) \<and> parse_int nt (render_cell nt d) \<noteq> None"
    proof
      fix d assume "d \<in> set cs"
      from a[OF this] show "\<not> is_na (render_cell nt d) \<and> parse_int nt (render_cell nt d) \<noteq> None"
        by (auto simp: render_simps)
    qed
    have "infer_kind nt (map (render_cell nt) cs) = Ints"
      using 1 2 by (simp only: infer_kind_map if_P if_not_P if_True if_False)
    then show ?thesis using i by (simp add: convert_def render_simps)
  next
    case FloatColumn
    have a: "d = MissingCell \<or>
             (\<exists>x. d = FloatCell x \<and> \<not> is_na (repr_float nt x) \<and>
                  parse_int nt (repr_float nt x) = None \<and>
                  parse_float nt (repr_float nt x) = Some x)"
      if "d \<in> set cs" for d
      using all that FloatColumn by (cases d) (auto simp: fits_def reads_back_def)
    from a[OF c] False obtain x where x: "c = FloatCell x" "\<not> is_na (repr_float nt x)"
      "parse_int nt (repr_float nt x) = None" "parse_float nt (repr_float nt x) = Some x"
      by blast
    have na: "\<not> is_na (render_cell nt c)" and pi: "parse_int nt (render_cell nt c) = None"
      using x by (simp_all add: render_simps)
    have 1: "\<not> (\<forall>d \<in> set cs. is_na (render_cell nt d))"
      using c na by blast
    have 2: "\<not> (\<forall>d \<in> set cs. \<not> is_na (render_cell nt d) \<and>
                  parse_int nt (render_cell nt d) \<noteq> None)"
      using c pi by blast
    have 3: "\<forall>d \<in> set cs. is_na (render_cell nt d) \<or> is_number nt (render_cell nt d)"
    proof
      fix d assume "d \<in> set cs"
      from a[OF this] show "is_na (render_cell nt d) \<or> is_number nt (render_cell nt d)"
        by (auto simp: render_simps is_na_empty is_number_def)
    qed
    have "infer_kind nt (map (render_cell nt) cs) = Floats"
      using 1 2 3 by (simp only: infer_kind_map if_P if_not_P if_True if_False)
    then show ?thesis using x by (simp add: convert_def render_simps)
  next
    case BoolColumn
    have a: "d = MissingCell \<or> (\<exists>b. d = BoolCell b \<and> \<not> is_number nt (render_cell nt d))"
      if "d \<in> set cs" for d
      using all that BoolColumn by (cases d) (auto simp: fits_def reads_back_def)
    from a[OF c] False obtain b where b: "c = BoolCell b" "\<not> is_number nt (render_cell nt c)"
      by blast
    have na: "\<not> is_na (render_cell nt c)" using b(1) render_bool_not_na by simp
    have pi: "parse_int nt (render_cell nt c) = None" using b(2) by (simp add: is_number_def)
    have 1: "\<not> (\<forall>d \<in> set cs. is_na (render_cell nt d))"
      using c na by blast
    have 2: "\<not> (\<forall>d \<in> set cs. \<not> is_na (render_cell nt d) \<and>
                  parse_int nt (render_cell nt d) \<noteq> None)"
      using c pi by blast
    have 3: "\<not> (\<forall>d \<in> set cs. is_na (render_cell nt d) \<or> is_number nt (render_cell nt d))"
      using c na b(2) by blast
    have 4: "\<forall>d \<in> set cs. is_na (render_cell nt d) \<or> is_bool (render_cell nt d)"
    proof
      fix d assume "d \<in> set cs"
      from a[OF this] show "is_na (render_cell nt d) \<or> is_bool (render_cell nt d)"
        using render_bool_is_bool by (auto simp: render_simps is_na_empty)
    qed
    have "infer_kind nt (map (render_cell nt) cs) = Bools"
      using 1 2 3 4 by (simp only: infer_kind_map if_P if_not_P if_True if_False)
    then show ?thesis
      using b(1) render_bool_not_na[of nt b] render_bool_true[of nt b]
      by (simp add: convert_def)
  next
    case TextColumn
    have a: "d = MissingCell \<or>
             (\<exists>s. d = TextCell s \<and> \<not> is_na s \<and> \<not> is_number nt s \<and> \<not> is_bool s)"
      if "d \<in> set cs" for d
      using all that TextColumn by (cases d) (auto simp: fits_def reads_back_def)
    from a[OF c] False obtain s where s: "c = TextCell s" "\<not> is_na s" "\<not> is_number nt s"
      "\<not> is_bool s" by blast
    have na: "\<not> is_na (render_cell nt c)" and nn: "\<not> is_number nt (render_cell nt c)"
      and nb: "\<not> is_bool (render_cell nt c)"
      using s by (simp_all add: render_simps)
    have pi: "parse_int nt (render_cell nt c) = None" using nn by (simp add: is_number_def)
    have 1: "\<not> (\<forall>d \<in> set cs. is_na (render_cell nt d))"
      using c na by blast
    have 2: "\<not> (\<forall>d \<in> set cs. \<not> is_na (render_cell nt d) \<and>
                  parse_int nt (render_cell nt d) \<noteq> None)"
      using c pi by blast
    have 3: "\<not> (\<forall>d \<in> set cs. is_na (render_cell nt d) \<or> is_number nt (render_cell nt d))"
      using c na nn by blast
    have 4: "\<not> (\<forall>d \<in> set cs. is_na (render_cell nt d) \<or> is_bool (render_cell nt d))"
      using c na nb by blast
    have "infer_kind nt (map (render_cell nt) cs) = Texts"
      using 1 2 3 4 by (simp only: infer_kind_map if_P if_not_P if_True if_False)
    then show ?thesis using s by (simp add: convert_def render_simps)
  qed
qed

lemma read_csv_to_csv:
  assumes "csv_safe nt tys t"
  shows "read_csv nt (to_csv nt t) = Inr t"
proof -
  define names rows n where "names = frame_columns t" and "rows = frame_rows t"
    and "n = length (frame_columns t)"
  define lines where "lines = map (map (render_cell nt)) rows"
  from assms have ne: "names \<noteq> []" and tn: "length tys = n"
    and nm: "\<forall>f \<in> set names. creturn \<notin> set f"
    and rw: "\<And>row. row \<in> set rows \<Longrightarrow> list_all2 fits tys row"
    and rb: "\<And>row c. row \<in> set rows \<Longrightarrow> c \<in> set row \<Longrightarrow> reads_back nt c"
    by (auto simp: csv_safe_def names_def rows_def n_def)
  have n: "n = length names" "0 < n" using ne by (simp_all add: n_def names_def)
  have len: "length row = n" if "row \<in> set rows" for row
    using rw[OF that] tn by (auto dest: list_all2_lengthD)
  have llen: "length l = n" if "l \<in> set lines" for l
    using that len by (auto simp: lines_def)
  have "\<forall>fs \<in> set (names # lines). fs \<noteq> [] \<and> (\<forall>f \<in> set fs. creturn \<notin> set f)"
  proof
    fix fs assume "fs \<in> set (names # lines)"
    then consider "fs = names" | row where "row \<in> set rows" "fs = map (render_cell nt) row"
      by (auto simp: lines_def)
    then show "fs \<noteq> [] \<and> (\<forall>f \<in> set fs. creturn \<notin> set f)"
    proof cases
      case 1
      then show ?thesis using ne nm by simp
    next
      case 2
      then have "length fs = n" using len by simp
      moreover have "creturn \<notin> set (render_cell nt c)" if "c \<in> set row" for c
        using rb[OF 2(1) that] by (simp add: reads_back_def)
      ultimately show ?thesis using n 2 by auto
    qed
  qed
  then have tok: "read_chars StartField [] [] (to_csv nt t) = Some (names # lines)"
    unfolding to_csv_def names_def[symmetric] rows_def[symmetric] lines_def[symmetric]
    by (rule read_rows)
  have wide: "\<not> (\<exists>l \<in> set lines. length names < length l)"
    using llen n by auto
  have pad: "map (\<lambda>l. l @ replicate (n - length l) []) lines = lines"
    using llen by (intro map_idI) simp
  have cellwise:
    "map (\<lambda>j. convert nt (infer_kind nt (map (\<lambda>r. r ! j) lines)) (l ! j)) [0..<n] = row"
    if row: "row \<in> set rows" and l: "l = map (render_cell nt) row" for row l
  proof (rule nth_equalityI)
    show "length (map (\<lambda>j. convert nt (infer_kind nt (map (\<lambda>r. r ! j) lines)) (l ! j)) [0..<n]) =
          length row"
      using len[OF row] by simp
  next
    fix j assume "j < length (map (\<lambda>j. convert nt (infer_kind nt (map (\<lambda>r. r ! j) lines)) (l ! j)) [0..<n])"
    then have j: "j < n" by simp
    define cs where "cs = map (\<lambda>r. r ! j) rows"
    have col: "map (\<lambda>r. r ! j) lines = map (render_cell nt) cs"
      using j len by (simp add: lines_def cs_def)
    have "\<forall>c \<in> set cs. fits (tys ! j) c \<and> reads_back nt c"
    proof
      fix c assume "c \<in> set cs"
      then obtain r where r: "r \<in> set rows" "c = r ! j" by (auto simp: cs_def)
      have "fits (tys ! j) (r ! j)"
        using rw[OF r(1)] j tn by (simp add: list_all2_nthD)
      moreover have "r ! j \<in> set r" using len[OF r(1)] j by simp
      ultimately show "fits (tys ! j) c \<and> reads_back nt c" using rb[OF r(1)] r(2) by simp
    qed
    moreover have "row ! j \<in> set cs" using row by (auto simp: cs_def)
    ultimately have "convert nt (infer_kind nt (map (render_cell nt) cs))
                       (render_cell nt (row ! j)) = row ! j"
      by (rule convert_column)
    moreover have "l ! j = render_cell nt (row ! j)" using l j len[OF row] by simp
    ultimately show "map (\<lambda>j. convert nt (infer_kind nt (map (\<lambda>r. r ! j) lines)) (l ! j)) [0..<n] ! j =
                     row ! j"
      using j by (simp add: col)
  qed
  have "map (\<lambda>l. map (\<lambda>j. convert nt (infer_kind nt (map (\<lambda>r. r ! j) lines)) (l ! j)) [0..<n])
          lines = rows"
  proof (rule nth_equalityI)
    show "length (map (\<lambda>l. map (\<lambda>j. convert nt (infer_kind nt (map (\<lambda>r. r ! j) lines)) (l ! j))
                    [0..<n]) lines) = length rows"
      by (simp add: lines_def)
  next
    fix i
    assume "i < length (map (\<lambda>l. map (\<lambda>j. convert nt (infer_kind nt (map (\<lambda>r. r ! j) lines))
                                      (l ! j)) [0..<n]) lines)"
    then have il: "i < length lines" by simp
    then have i: "i < length rows" by (simp add: lines_def)
    have li: "lines ! i = map (render_cell nt) (rows ! i)" using i by (simp add: lines_def)
    show "map (\<lambda>l. map (\<lambda>j. convert nt (infer_kind nt (map (\<lambda>r. r ! j) lines)) (l ! j)) [0..<n])
            lines ! i = rows ! i"
      using cellwise[OF nth_mem[OF i] li] il by simp
  qed
  then have "read_csv nt (to_csv nt t) = Inr \<lparr>frame_columns = names, frame_rows = rows\<rparr>"
    using wide by (simp add: read_csv_def tok pad Let_def n(1)[symmetric] del: map_map)
  then show ?thesis by (simp add: names_def rows_def)
qed

subsection \<open>The evaluated table is within reach of the reader\<close>

lemma criterion_names_plain: "k \<in> set criterion_names \<Longrightarrow> creturn \<notin> set k"
  by (auto simp: criterion_names_def creturn_def)

lemma prefixed_distinct:
  "distinct ks \<Longrightarrow> distinct (map ((@) ''normalized_'') ks)"
  by (simp add: distinct_map inj_on_def)

lemma prefixed_apart:
  "''normalized_'' @ k \<notin>
     set ([''id'', ''name'', ''latitude'', ''longitude''] @ criterion_names @
          [''total_score'', ''rank'', ''recommended''])"
  by (simp add: criterion_names_def)

lemma fixed_names:
  "distinct ([''id'', ''name'', ''latitude'', ''longitude''] @ criterion_names @
             [''total_score'', ''rank'', ''recommended'']) \<and>
   (\<forall>n \<in> set ([''id'', ''name'', ''latitude'', ''longitude''] @ criterion_names @
                [''total_score'', ''rank'', ''recommended'']). n \<noteq> [] \<and> creturn \<notin> set n)"
  by (simp add: criterion_names_def creturn_def)

lemma header_ok:
  assumes "set ks \<subseteq> set criterion_names" and "distinct ks"
  shows "distinct ([''id'', ''name'', ''latitude'', ''longitude''] @ criterion_names @
                   map ((@) ''normalized_'') ks @ [''total_score'', ''rank'', ''recommended'']) \<and>
         (\<forall>n \<in> set ([''id'', ''name'', ''latitude'', ''longitude''] @ criterion_names @
                      map ((@) ''normalized_'') ks @
                      [''total_score'', ''rank'', ''recommended'']).
            n \<noteq> [] \<and> creturn \<notin> set n)"
proof -
  define A where "A = [''id'', ''name'', ''latitude'', ''longitude''] @ criterion_names"
  define B where "B = [''total_score'', ''rank'', ''recommended'']"
  define N where "N = map ((@) ''normalized_'') ks"
  have f: "distinct (A @ B)" "\<forall>n \<in> set (A @ B). n \<noteq> [] \<and> creturn \<notin> set n"
    using fixed_names unfolding A_def B_def append_assoc by (rule conjunct1, rule conjunct2)
  have d: "distinct N" unfolding N_def by (rule prefixed_distinct[OF assms(2)])
  have ap: "n \<notin> set (A @ B)" if "n \<in> set N" for n
  proof -
    from that obtain k where "n = ''normalized_'' @ k" unfolding N_def by auto
    then show ?thesis using prefixed_apart[of k] unfolding A_def B_def append_assoc
      by blast
  qed
  have pl: "n \<noteq> [] \<and> creturn \<notin> set n" if "n \<in> set N" for n
  proof -
    from that obtain k where k: "n = ''normalized_'' @ k" "k \<in> set ks" unfolding N_def by auto
    then have "creturn \<notin> set k" using assms(1) criterion_names_plain by blast
    then show ?thesis unfolding k(1) by (simp add: creturn_def)
  qed
  have 1: "distinct (A @ N @ B)" using f(1) d ap by auto
  have 2: "\<forall>n \<in> set (A @ N @ B). n \<noteq> [] \<and> creturn \<notin> set n" using f(2) pl by auto
  from 1 2 show ?thesis unfolding A_def B_def N_def by (simp only: append_assoc)
qed

lemma map_const_replicate: "map (\<lambda>(c, v). a) xs = replicate (length xs) a"
  by (induction xs) auto

lemma validate_keys: "validate w = Inr w' \<Longrightarrow> set (map fst w) \<subseteq> set criterion_names"
  by (auto simp: validate_def filter_empty_conv split: list.splits)

lemma evaluate_normalized_keys:
  assumes "evaluate raw w = Inr r"
  shows "r \<noteq> [] \<and> length r = length raw \<and> set (map fst w) \<subseteq> set criterion_names \<and>
         (\<forall>e \<in> set r. map fst (normalized e) = map fst w)"
proof -
  from assms obtain wv where v: "validate w = Inr wv" and ne: "raw \<noteq> []"
    by (auto simp: evaluate_def split: sum.splits if_splits)
  then have v': "validate w = Inr w" using validate_Inr by blast
  from evaluate_Inr[OF v' ne] assms have len: "length r = length raw" and
    n: "\<And>i. i < length raw \<Longrightarrow>
          normalized (r ! i) = map (\<lambda>c. (c, normalize_value c raw (raw ! i))) (map fst w)"
    by auto
  have "map fst (normalized e) = map fst w" if "e \<in> set r" for e
  proof -
    from that obtain i where "i < length r" "e = r ! i" by (auto simp: in_set_conv_nth)
    then show ?thesis using n[of i] len by (simp add: o_def)
  qed
  then show ?thesis using len ne validate_keys[OF v] by auto
qed

lemma normalized_names:
  "map (\<lambda>(c, v). ''normalized_'' @ c) xs = map ((@) ''normalized_'') (map fst xs)"
  by (induction xs) auto

lemma fits_simps:
  "fits ty (TextCell s) \<longleftrightarrow> ty = TextColumn"
  "fits ty (IntCell i) \<longleftrightarrow> ty = IntColumn"
  "fits ty (FloatCell x) \<longleftrightarrow> ty = FloatColumn"
  "fits ty (BoolCell b) \<longleftrightarrow> ty = BoolColumn"
  "fits ty MissingCell \<longleftrightarrow> ty \<noteq> IntColumn"
  by (simp_all add: fits_def)

lemma fits_criterion_cell: "fits FloatColumn (criterion_cell x)"
  by (cases x) (simp_all add: criterion_cell_def fits_def)

lemma to_frame_safe:
  assumes ev: "evaluate raw w = Inr r" and dk: "distinct (map fst w)"
    and rb: "\<forall>row \<in> set (frame_rows (to_frame r)). \<forall>c \<in> set row. reads_back nt c"
  shows "csv_safe nt (evaluated_types r) (to_frame r) \<and>
         frame_columns (to_frame r) =
           [''id'', ''name'', ''latitude'', ''longitude''] @ criterion_names @
           map ((@) ''normalized_'') (map fst w) @ [''total_score'', ''rank'', ''recommended'']"
proof -
  from evaluate_normalized_keys[OF ev] have ne: "r \<noteq> []"
    and ks: "set (map fst w) \<subseteq> set criterion_names"
    and nk: "\<And>e. e \<in> set r \<Longrightarrow> map fst (normalized e) = map fst w"
    by auto
  from ne obtain e0 r' where r: "r = e0 # r'" by (cases r) auto
  have k0: "map fst (normalized e0) = map fst w" using nk[of e0] r by simp
  have cols: "frame_columns (to_frame r) =
           [''id'', ''name'', ''latitude'', ''longitude''] @ criterion_names @
           map ((@) ''normalized_'') (map fst w) @ [''total_score'', ''rank'', ''recommended'']"
  proof -
    have "map (\<lambda>(c, v). ''normalized_'' @ c) (normalized e0) =
          map ((@) ''normalized_'') (map fst w)"
      by (simp only: normalized_names k0)
    then show ?thesis
      by (simp only: to_frame_def evaluated_columns_def r list.case frame.select_convs)
  qed
  have tys: "evaluated_types r =
    [IntColumn, TextColumn, FloatColumn, FloatColumn] @ replicate 5 FloatColumn @
    replicate (length w) FloatColumn @ [FloatColumn, IntColumn, BoolColumn]"
  proof -
    have "length (normalized e0) = length w" using k0 by (metis length_map)
    then have "map (\<lambda>(c, v). FloatColumn) (normalized e0) = replicate (length w) FloatColumn"
      by (simp only: map_const_replicate)
    then show ?thesis by (simp add: evaluated_types_def r)
  qed
  have row: "list_all2 fits (evaluated_types r) (evaluated_row e)" if "e \<in> set r" for e
  proof -
    have "length (normalized e) = length w" using nk[OF that] by (metis length_map)
    then have b: "list_all2 fits (replicate (length w) FloatColumn)
                 (map (\<lambda>(c, v). FloatCell v) (normalized e))"
      by (auto simp: list_all2_conv_all_nth fits_def case_prod_beta)
    have a: "list_all2 fits ([IntColumn, TextColumn, FloatColumn, FloatColumn] @
                             replicate 5 FloatColumn)
               [IntCell (int (site_id (raw_site e))), TextCell (site_name (raw_site e)),
                FloatCell (latitude (raw_site e)), FloatCell (longitude (raw_site e)),
                criterion_cell (population_density (raw_site e)),
                criterion_cell (accessibility (raw_site e)),
                criterion_cell (risk_level (raw_site e)),
                criterion_cell (facility_capacity (raw_site e)),
                criterion_cell (service_coverage (raw_site e))]"
      by (simp add: eval_nat_numeral fits_simps fits_criterion_cell)
    have c: "list_all2 fits [FloatColumn, IntColumn, BoolColumn]
               [FloatCell (total_score e), IntCell (int (rank e)), BoolCell (recommended e)]"
      by (simp add: fits_def)
    from a b c have
      "list_all2 fits
         (([IntColumn, TextColumn, FloatColumn, FloatColumn] @ replicate 5 FloatColumn) @
          replicate (length w) FloatColumn @ [FloatColumn, IntColumn, BoolColumn])
         (evaluated_row e)"
      unfolding evaluated_row_def by (intro list_all2_appendI)
    then show ?thesis unfolding tys by (simp only: append_assoc)
  qed
  have "csv_safe nt (evaluated_types r) (to_frame r)"
    unfolding csv_safe_def
  proof (intro conjI)
    show "frame_columns (to_frame r) \<noteq> []" by (simp add: cols)
    show "length (evaluated_types r) = length (frame_columns (to_frame r))"
      by (simp add: cols tys criterion_names_def)
    show "distinct (frame_columns (to_frame r))"
      unfolding cols using header_ok[OF ks dk] by blast
    show "\<forall>n \<in> set (frame_columns (to_frame r)). n \<noteq> [] \<and> creturn \<notin> set n"
      unfolding cols using header_ok[OF ks dk] by blast
    show "\<forall>row \<in> set (frame_rows (to_frame r)).
            list_all2 fits (evaluated_types r) row \<and> (\<forall>c \<in> set row. reads_back nt c)"
      using rb row by (auto simp: to_frame_def)
  qed
  with cols show ?thesis by simp
qed

section \<open>The claims\<close>

text \<open>
  C1, as the code has it. The fingerprint of a run that displays a table is the digest of
  the sorted (criterion, weight) pairs alone: it is the same for every insertion order of the
  same pairs, and nothing of the dataset enters it. A new dataset is taken into account by
  the reload button: a run with the button pressed evaluates the table it has just loaded.
\<close>

theorem fingerprint_covers_weights_only:
  assumes "site_evaluation_view env ui ss = (res, ss')" and "displayed res = Some r"
  shows "\<exists>w an files raw.
           read_sliders ss ui = Inr w \<and> update_weights env w = Inr an \<and>
           list_available_facility_files env = Inr files \<and>
           last_weights_hash ss' = Some (md5_str env (sort w)) \<and>
           (\<forall>w'. mset w' = mset w \<longrightarrow> weights_hash env w' = weights_hash env w) \<and>
           (reload_pressed ui \<longrightarrow>
              recomputed res \<and>
              load_specific_facility_data env (chosen_file files (file_choice ui)) = Inr raw \<and>
              sites_data_for_evaluation ss' = Some raw \<and>
              evaluate_sites env an raw = Inr r)"
proof -
  from view_displayed[OF assms] obtain w an files raw where
    f: "read_sliders ss ui = Inr w" "update_weights env w = Inr an"
       "list_available_facility_files env = Inr files"
       "sites_data_for_evaluation ss' = Some raw"
       "last_weights_hash ss' = Some (weights_hash env w)"
       "recomputed res \<longrightarrow> evaluate_sites env an raw = Inr r"
       "reload_pressed ui \<longrightarrow>
          recomputed res \<and>
          load_specific_facility_data env (chosen_file files (file_choice ui)) = Inr raw"
    by blast
  have h: "last_weights_hash ss' = Some (md5_str env (sort w))"
    using f(5) by (simp only: weights_hash_def)
  have m: "\<forall>w'. mset w' = mset w \<longrightarrow> weights_hash env w' = weights_hash env w"
    by (intro allI impI) (rule weights_hash_mset)
  have l: "reload_pressed ui \<longrightarrow>
              recomputed res \<and>
              load_specific_facility_data env (chosen_file files (file_choice ui)) = Inr raw \<and>
              sites_data_for_evaluation ss' = Some raw \<and>
              evaluate_sites env an raw = Inr r"
    using f(4,6,7) by blast
  from f(1,2,3) h m l show ?thesis by blast
qed

theorem fingerprint_covers_weights_only_witness:
  "\<exists>r. displayed (fst first_run) = Some r \<and>
     (\<exists>w an files raw.
        read_sliders (empty_session :: (evaluated_site list, weight_dict) session_state)
          (untouched 0 True) = Inr w \<and>
        update_weights example_env w = Inr an \<and>
        list_available_facility_files example_env = Inr files \<and>
        last_weights_hash (snd first_run) = Some (md5_str example_env (sort w)) \<and>
        (\<forall>w'. mset w' = mset w \<longrightarrow> weights_hash example_env w' = weights_hash example_env w) \<and>
        (reload_pressed (untouched 0 True) \<longrightarrow>
           recomputed (fst first_run) \<and>
           load_specific_facility_data example_env
             (chosen_file files (file_choice (untouched 0 True))) = Inr raw \<and>
           sites_data_for_evaluation (snd first_run) = Some raw \<and>
           evaluate_sites example_env an raw = Inr r))"
proof -
  have "displayed (fst first_run) \<noteq> None" by code_simp
  then obtain r where r: "displayed (fst first_run) = Some r" by blast
  have v: "site_evaluation_view example_env (untouched 0 True) empty_session =
             (fst first_run, snd first_run)"
    by (simp add: first_run_def)
  from fingerprint_covers_weights_only[OF v r] r show ?thesis by blast
qed

text \<open>
  C1, as stated, fails. In the worked example the first file is evaluated, then the second
  file is selected with the same weights. With the reload button the dataset and the table
  change and the fingerprint stays the same; without it the second dataset is loaded and the
  table of the first is displayed, with no evaluation.
\<close>

theorem fingerprint_ignores_dataset:
  "sites_data_for_evaluation (snd first_run) = Some real_facilities \<and>
   sites_data_for_evaluation (snd reloaded_run) = Some qgis_facilities \<and>
   real_facilities \<noteq> qgis_facilities \<and>
   last_weights_hash (snd first_run) = Some (sort default_weights) \<and>
   last_weights_hash (snd reloaded_run) = last_weights_hash (snd first_run) \<and>
   displayed (fst reloaded_run) \<noteq> displayed (fst first_run) \<and>
   sites_data_for_evaluation (snd switched_run) = Some qgis_facilities \<and>
   \<not> recomputed (fst switched_run) \<and>
   displayed (fst switched_run) = displayed (fst first_run)"
  by code_simp

text \<open>
  C2. Running the view twice on the same inputs: when a run has displayed a table, the next
  run with the same sliders and the same file (the reload button not pressed) displays the
  same table, with the same total scores and ranks, does not call \<open>evaluate_sites\<close>, and
  leaves the session as it is. So one pair of dataset and weights is evaluated at most once
  in a row.
\<close>

theorem second_run_served_from_cache:
  assumes "site_evaluation_view env ui ss = (res, ss')" and "displayed res = Some r"
  shows "site_evaluation_view env (ui\<lparr>reload_pressed := False\<rparr>) ss' =
           (res\<lparr>recomputed := False\<rparr>, ss')"
proof -
  from view_displayed[OF assms] obtain w an files raw where
    w: "read_sliders ss ui = Inr w" and an: "update_weights env w = Inr an" and
    files: "list_available_facility_files env = Inr files" "files \<noteq> []" and
    st: "sites_data_for_evaluation ss' = Some raw"
        "selected_data_file ss' = Some (chosen_file files (file_choice ui))"
        "evaluated_sites_for_view ss' = Some r"
        "last_weights_hash ss' = Some (weights_hash env w)" and
    wf: "weight_fields ss' = map Some (map snd w)" and
    res: "res = \<lparr>weight_diagnostic = Some (weight_sum_diagnostic env w), failure = None,
                 recomputed = recomputed res, displayed = Some r\<rparr>"
    by blast
  have 1: "read_sliders ss' (ui\<lparr>reload_pressed := False\<rparr>) = Inr w"
    by (rule read_sliders_again[OF w wf])
  have 2: "store_weights w ss' = ss'"
    by (rule store_weights_idem[OF wf read_sliders_keys[OF w]])
  have 3: "load_data env (chosen_file files (file_choice ui)) ss' = Inr (raw, ss')"
    by (rule load_data_stored[OF st(1,2)])
  have 4: "evaluate_and_show env (weight_sum_diagnostic env w) w an raw ss' =
             (\<lparr>weight_diagnostic = Some (weight_sum_diagnostic env w), failure = None,
               recomputed = False, displayed = Some r\<rparr>, ss')"
    by (rule evaluate_and_show_cached[OF st(3,4,1)])
  have "site_evaluation_view env (ui\<lparr>reload_pressed := False\<rparr>) ss' =
          (\<lparr>weight_diagnostic = Some (weight_sum_diagnostic env w), failure = None,
            recomputed = False, displayed = Some r\<rparr>, ss')"
    by (simp add: site_evaluation_view_def 1 2 an files 3 4)
  moreover have "res\<lparr>recomputed := False\<rparr> =
      \<lparr>weight_diagnostic = Some (weight_sum_diagnostic env w), failure = None,
       recomputed = False, displayed = Some r\<rparr>"
    by (subst res) simp
  ultimately show ?thesis by simp
qed

theorem second_run_served_from_cache_witness:
  "recomputed (fst first_run) \<and>
   map rank (the (displayed (fst first_run))) = [3, 1, 2] \<and>
   site_evaluation_view example_env (untouched 0 False) (snd first_run) =
     ((fst first_run)\<lparr>recomputed := False\<rparr>, snd first_run)"
proof -
  have "displayed (fst first_run) \<noteq> None" by code_simp
  then obtain r where r: "displayed (fst first_run) = Some r" by blast
  have v: "site_evaluation_view example_env (untouched 0 True) empty_session =
             (fst first_run, snd first_run)"
    by (simp add: first_run_def)
  have u: "(untouched 0 True)\<lparr>reload_pressed := False\<rparr> = untouched 0 False"
    by (simp add: untouched_def)
  have "recomputed (fst first_run)" by code_simp
  moreover have "map rank (the (displayed (fst first_run))) = [3, 1, 2]" by code_simp
  ultimately show ?thesis
    using second_run_served_from_cache[OF v r] u by simp
qed

text \<open>
  C3. In every batch returned by the scorer, a site is flagged recommended exactly when its
  total score is at least 0.6, and the "Recommended Sites" metric of the view (line 468)
  counts exactly the flagged sites.
\<close>

theorem recommended_iff_threshold:
  assumes "score batch w = Inr r"
  shows "(\<forall>s \<in> set r. recommended s \<longleftrightarrow> total_score s \<ge> 6 / 10) \<and>
         recommended_sites r = length (filter recommended r)"
proof -
  have ne: "batch \<noteq> []" using assms by (rule score_nonempty)
  from score_Inr[OF ne, of w] assms have len: "length r = length batch"
    and f: "\<And>i. i < length batch \<Longrightarrow>
              total_score (r ! i) = weighted_total w (batch ! i) \<and>
              recommended (r ! i) = (recommendation_threshold \<le> weighted_total w (batch ! i))"
    by auto
  have 1: "\<forall>s \<in> set r. recommended s \<longleftrightarrow> total_score s \<ge> 6 / 10"
    using f len by (auto simp: in_set_conv_nth recommendation_threshold_def)
  then have "filter (\<lambda>s. total_score s \<ge> 6 / 10) r = filter recommended r"
    by (intro filter_cong) auto
  with 1 show ?thesis by (simp add: recommended_sites_def)
qed

theorem recommended_iff_threshold_witness:
  "\<exists>r. score example_batch default_weights = Inr r \<and>
       map total_score r = [5 / 16, 7 / 10, 13 / 20] \<and>
       map recommended r = [False, True, True] \<and>
       (\<forall>s \<in> set r. recommended s \<longleftrightarrow> total_score s \<ge> 6 / 10) \<and>
       recommended_sites r = length (filter recommended r)"
proof -
  have "example_batch \<noteq> []"
    by (simp add: example_batch_def normalize_batch_def real_facilities_def)
  with score_Inr[of example_batch default_weights] obtain r where
    r: "score example_batch default_weights = Inr r" by blast
  have "map total_score (projr (score example_batch default_weights)) =
          [5 / 16, 7 / 10, 13 / 20]"
    by code_simp
  then have t: "map total_score r = [5 / 16, 7 / 10, 13 / 20]"
    by (simp only: r sum.sel)
  have "map recommended (projr (score example_batch default_weights)) = [False, True, True]"
    by code_simp
  then have f: "map recommended r = [False, True, True]"
    by (simp only: r sum.sel)
  have "(\<forall>s \<in> set r. recommended s \<longleftrightarrow> total_score s \<ge> 6 / 10) \<and>
        recommended_sites r = length (filter recommended r)"
    by (rule recommended_iff_threshold[OF r])
  with r t f have "score example_batch default_weights = Inr r \<and>
       map total_score r = [5 / 16, 7 / 10, 13 / 20] \<and>
       map recommended r = [False, True, True] \<and>
       (\<forall>s \<in> set r. recommended s \<longleftrightarrow> total_score s \<ge> 6 / 10) \<and>
       recommended_sites r = length (filter recommended r)"
    by (intro conjI) (erule conjunct1 conjunct2 | assumption)+
  then show ?thesis by (rule exI)
qed

text \<open>
  C4. For the weights read from the sliders in a session whose stored weights are slider
  positions: the validation accepts them whatever their sum; the diagnostic is a warning
  exactly when the computed distance of the computed sum from 1 exceeds the float 0.01, and,
  the two operations on doubles being accurate to a thousandth, exactly when the exact sum
  is further than 0.01 from 1; the evaluation of a non-empty batch with validated weights
  succeeds, and the total score of each site is the sum of the weights as given times the
  normalized values; and the view, whenever the selected file can be loaded, displays a
  table with no failure whatever the diagnostic, evaluating the current table with these
  weights when the reload button is pressed or the fingerprint has changed.
\<close>

theorem weight_sum_warns_never_blocks:
  assumes "env = core_collaborators files load h fsum fsub"
    and "stored_on_grid ss" and "read_sliders ss ui = Inr w"
  shows "validate w = Inr w \<and>
         ((\<exists>t. weight_sum_diagnostic env w = Warning t) \<longleftrightarrow>
            \<bar>float_sub env (float_sum env (map snd w)) 1\<bar> > double_0_01) \<and>
         (float_accurate env \<longrightarrow>
            ((\<exists>t. weight_sum_diagnostic env w = Warning t) \<longleftrightarrow>
               \<bar>sum_list (map snd w) - 1\<bar> > 1 / 100)) \<and>
         (validate w' = Inr w' \<and> raw' \<noteq> [] \<longrightarrow>
            (\<exists>r. evaluate raw' w' = Inr r \<and> length r = length raw' \<and>
                 (\<forall>i<length raw'.
                    total_score (r ! i) =
                      (\<Sum>(c, wt) \<leftarrow> w'. wt * normalize_value c raw' (raw' ! i))))) \<and>
         (files \<noteq> [] \<and> load (chosen_file files (file_choice ui)) = Inr raw0 \<and> raw0 \<noteq> [] \<and>
          (\<forall>raw. sites_data_for_evaluation ss = Some raw \<longrightarrow> raw \<noteq> []) \<longrightarrow>
            (\<exists>r raw.
               fst (site_evaluation_view env ui ss) =
                 \<lparr>weight_diagnostic = Some (weight_sum_diagnostic env w), failure = None,
                  recomputed = recomputed (fst (site_evaluation_view env ui ss)),
                  displayed = Some r\<rparr> \<and>
               sites_data_for_evaluation (snd (site_evaluation_view env ui ss)) = Some raw \<and>
               (recomputed (fst (site_evaluation_view env ui ss)) \<longrightarrow>
                  evaluate raw w = Inr r) \<and>
               (reload_pressed ui \<or> last_weights_hash ss \<noteq> Some (weights_hash env w) \<longrightarrow>
                  recomputed (fst (site_evaluation_view env ui ss)))))"
proof (intro conjI impI)
  show "validate w = Inr w" by (rule read_sliders_valid[OF assms(3)])
  show "(\<exists>t. weight_sum_diagnostic env w = Warning t) \<longleftrightarrow>
          \<bar>float_sub env (float_sum env (map snd w)) 1\<bar> > double_0_01"
    by (rule diagnostic_computed)
  show "(\<exists>t. weight_sum_diagnostic env w = Warning t) \<longleftrightarrow>
          \<bar>sum_list (map snd w) - 1\<bar> > 1 / 100"
    if "float_accurate env"
    by (rule diagnostic_exact[OF that assms(3,2)])
  show "\<exists>r. evaluate raw' w' = Inr r \<and> length r = length raw' \<and>
            (\<forall>i<length raw'.
               total_score (r ! i) =
                 (\<Sum>(c, wt) \<leftarrow> w'. wt * normalize_value c raw' (raw' ! i)))"
    if "validate w' = Inr w' \<and> raw' \<noteq> []"
  proof -
    from that have a: "validate w' = Inr w'" and b: "raw' \<noteq> []" by simp_all
    from evaluate_Inr[OF a b] show ?thesis by blast
  qed
  show "\<exists>r raw.
          fst (site_evaluation_view env ui ss) =
            \<lparr>weight_diagnostic = Some (weight_sum_diagnostic env w), failure = None,
             recomputed = recomputed (fst (site_evaluation_view env ui ss)),
             displayed = Some r\<rparr> \<and>
          sites_data_for_evaluation (snd (site_evaluation_view env ui ss)) = Some raw \<and>
          (recomputed (fst (site_evaluation_view env ui ss)) \<longrightarrow> evaluate raw w = Inr r) \<and>
          (reload_pressed ui \<or> last_weights_hash ss \<noteq> Some (weights_hash env w) \<longrightarrow>
             recomputed (fst (site_evaluation_view env ui ss)))"
    if "files \<noteq> [] \<and> load (chosen_file files (file_choice ui)) = Inr raw0 \<and> raw0 \<noteq> [] \<and>
        (\<forall>raw. sites_data_for_evaluation ss = Some raw \<longrightarrow> raw \<noteq> [])"
  proof -
    from that have a: "files \<noteq> []" "load (chosen_file files (file_choice ui)) = Inr raw0"
      "raw0 \<noteq> []" "\<forall>raw. sites_data_for_evaluation ss = Some raw \<longrightarrow> raw \<noteq> []"
      by simp_all
    show ?thesis by (rule core_view_shows[OF assms(1,3) a])
  qed
qed

theorem weight_sum_warns_never_blocks_witness:
  "stored_on_grid (snd first_run) \<and> read_sliders (snd first_run) moved = Inr heavy_weights \<and>
   float_accurate example_env \<and> \<not> reload_pressed moved \<and>
   sites_data_for_evaluation (snd first_run) = Some real_facilities \<and>
   last_weights_hash (snd first_run) \<noteq> Some (weights_hash example_env heavy_weights) \<and>
   validate heavy_weights = Inr heavy_weights \<and>
   weight_sum_diagnostic example_env heavy_weights = Warning (5 / 4) \<and>
   (\<exists>r. evaluate real_facilities heavy_weights = Inr r \<and>
        fst (site_evaluation_view example_env moved (snd first_run)) =
          \<lparr>weight_diagnostic = Some (Warning (5 / 4)), failure = None,
           recomputed = True, displayed = Some r\<rparr>)"
proof -
  have e: "example_env = core_collaborators example_files example_load id sum_list (-)"
    by (simp add: example_env_def)
  have g: "stored_on_grid (snd first_run)" by code_simp
  have w: "read_sliders (snd first_run) moved = Inr heavy_weights" by code_simp
  have acc: "float_accurate example_env"
    by (simp add: float_accurate_def example_env_def core_collaborators_def)
  have nr: "\<not> reload_pressed moved" by code_simp
  have st: "sites_data_for_evaluation (snd first_run) = Some real_facilities" by code_simp
  have ne: "real_facilities \<noteq> []" by (simp add: real_facilities_def)
  have h: "last_weights_hash (snd first_run) \<noteq> Some (weights_hash example_env heavy_weights)"
    by code_simp
  have d: "weight_sum_diagnostic example_env heavy_weights = Warning (5 / 4)" by code_simp
  have f: "example_files \<noteq> []" by (simp add: example_files_def)
  have l: "example_load (chosen_file example_files (file_choice moved)) = Inr real_facilities"
    by code_simp
  have a: "sites_data_for_evaluation
             (snd (site_evaluation_view example_env moved (snd first_run))) =
           Some real_facilities"
    by code_simp
  note t = weight_sum_warns_never_blocks[OF e g w, of heavy_weights real_facilities
      real_facilities]
  from t have v: "validate heavy_weights = Inr heavy_weights" by (rule conjunct1)
  from t f l ne st obtain r raw where
    r: "fst (site_evaluation_view example_env moved (snd first_run)) =
          \<lparr>weight_diagnostic = Some (weight_sum_diagnostic example_env heavy_weights),
           failure = None,
           recomputed = recomputed (fst (site_evaluation_view example_env moved (snd first_run))),
           displayed = Some r\<rparr>"
       "sites_data_for_evaluation
          (snd (site_evaluation_view example_env moved (snd first_run))) = Some raw"
       "recomputed (fst (site_evaluation_view example_env moved (snd first_run))) \<longrightarrow>
          evaluate raw heavy_weights = Inr r"
       "reload_pressed moved \<or>
        last_weights_hash (snd first_run) \<noteq> Some (weights_hash example_env heavy_weights) \<longrightarrow>
          recomputed (fst (site_evaluation_view example_env moved (snd first_run)))"
    by auto
  from r(4) h have rc: "recomputed (fst (site_evaluation_view example_env moved (snd first_run)))"
    by simp
  from r(2) a have "raw = real_facilities" by simp
  with r(3) rc have ev: "evaluate real_facilities heavy_weights = Inr r" by simp
  from r(1) rc d have
    "fst (site_evaluation_view example_env moved (snd first_run)) =
       \<lparr>weight_diagnostic = Some (Warning (5 / 4)), failure = None,
        recomputed = True, displayed = Some r\<rparr>"
    by simp
  with ev g w acc nr st h v d show ?thesis by blast
qed

text \<open>
  C5. For a non-empty batch of N sites the scorer returns the sites in input order, the ranks
  are exactly the numbers 1 to N, each once, and a site ranks before another exactly when its
  total score is greater, or equal with an earlier place in the input.
\<close>

theorem ranks_dense_and_stable:
  assumes "batch \<noteq> []"
  shows "\<exists>r. score batch w = Inr r \<and> length r = length batch \<and>
           map raw_site r = map raw_site batch \<and>
           mset (map rank r) = mset [1..<Suc (length batch)] \<and>
           (\<forall>i<length r. \<forall>j<length r.
              rank (r ! i) < rank (r ! j) \<longleftrightarrow>
                total_score (r ! i) > total_score (r ! j) \<or>
                (total_score (r ! i) = total_score (r ! j) \<and> i < j))"
proof -
  let ?t = "map (weighted_total w) batch"
  from score_Inr[OF assms, of w] obtain r where
    r: "score batch w = Inr r" "length r = length batch" and
    f: "\<And>i. i < length batch \<Longrightarrow>
              raw_site (r ! i) = raw_site (batch ! i) \<and>
              total_score (r ! i) = weighted_total w (batch ! i) \<and>
              rank (r ! i) = ranks ?t ! i"
    by blast
  have "map raw_site r = map raw_site batch"
    by (rule nth_equalityI) (simp_all add: r f)
  moreover have "map rank r = ranks ?t"
    by (rule nth_equalityI) (simp_all add: r f length_ranks)
  then have "mset (map rank r) = mset [1..<Suc (length batch)]"
    using ranks_perm[of ?t] by simp
  moreover have "rank (r ! i) < rank (r ! j) \<longleftrightarrow>
                total_score (r ! i) > total_score (r ! j) \<or>
                (total_score (r ! i) = total_score (r ! j) \<and> i < j)"
    if "i < length r" "j < length r" for i j
    using that place_rank_order[of i ?t j] by (simp add: r f nth_ranks)
  ultimately show ?thesis using r by blast
qed

theorem ranks_dense_and_stable_witness:
  "example_batch \<noteq> [] \<and> map rank (projr (score example_batch [(''service_coverage'', 1)])) = [1, 2, 3] \<and>
   (\<exists>r. score example_batch default_weights = Inr r \<and> length r = length example_batch \<and>
        map raw_site r = map raw_site example_batch \<and>
        mset (map rank r) = mset [1..<Suc (length example_batch)] \<and>
        (\<forall>i<length r. \<forall>j<length r.
           rank (r ! i) < rank (r ! j) \<longleftrightarrow>
             total_score (r ! i) > total_score (r ! j) \<or>
             (total_score (r ! i) = total_score (r ! j) \<and> i < j)))"
proof -
  have ne: "example_batch \<noteq> []"
    by (simp add: example_batch_def normalize_batch_def real_facilities_def)
  moreover have "map rank (projr (score example_batch [(''service_coverage'', 1)])) = [1, 2, 3]"
    by code_simp
  ultimately show ?thesis using ranks_dense_and_stable[OF ne, of default_weights] by blast
qed

text \<open>
  C6. For a site of the batch with a raw value for a criterion whose batch minimum and maximum
  differ: the criterion is one of the five, the normalized value is (max - v) / (max - min)
  for the risk level and (v - min) / (max - min) for the four others, so the batch maximum
  gets 1 (0 for the risk level) and the batch minimum gets 0 (1 for the risk level).
\<close>

theorem direction_policy:
  assumes "s \<in> set batch" and "raw_value c s = Some v"
    and "batch_min c batch \<noteq> batch_max c batch"
  shows "c \<in> set criterion_names \<and> batch_min c batch \<le> v \<and> v \<le> batch_max c batch \<and>
         normalize_value c batch s =
           (if c = ''risk_level''
            then (batch_max c batch - v) / (batch_max c batch - batch_min c batch)
            else (v - batch_min c batch) / (batch_max c batch - batch_min c batch)) \<and>
         (v = batch_max c batch \<longrightarrow>
            normalize_value c batch s = (if c = ''risk_level'' then 0 else 1)) \<and>
         (v = batch_min c batch \<longrightarrow>
            normalize_value c batch s = (if c = ''risk_level'' then 1 else 0))"
proof -
  define mn mx nv where "mn = batch_min c batch" and "mx = batch_max c batch"
    and "nv = normalize_value c batch s"
  have ne: "mn \<noteq> mx" using assms(3) by (simp add: mn_def mx_def)
  have nv: "nv = (if c = ''risk_level'' then (mx - v) / (mx - mn) else (v - mn) / (mx - mn))"
    using ne
    by (simp add: nv_def mn_def mx_def normalize_value_present[OF assms(1,2)]
        lower_is_better_def)
  have hi: "v = mx \<longrightarrow> nv = (if c = ''risk_level'' then 0 else 1)"
    using ne by (simp add: nv)
  have lo: "v = mn \<longrightarrow> nv = (if c = ''risk_level'' then 1 else 0)"
    using ne by (simp add: nv)
  have bd: "mn \<le> v" "v \<le> mx"
    using present_values_mem[OF assms(1,2)]
    by (simp_all add: mn_def mx_def batch_min_le batch_max_ge)
  from nv hi lo bd raw_value_Some_criterion[OF assms(2)] show ?thesis
    unfolding mn_def mx_def nv_def by blast
qed

theorem direction_policy_witness:
  "school \<in> set real_facilities \<and> raw_value ''risk_level'' school = Some 1 \<and>
   batch_min ''risk_level'' real_facilities = 1 \<and>
   batch_max ''risk_level'' real_facilities = 5 \<and>
   normalize_value ''risk_level'' real_facilities school = 1 \<and>
   stadium \<in> set real_facilities \<and> raw_value ''population_density'' stadium = Some 300 \<and>
   batch_min ''population_density'' real_facilities = 100 \<and>
   batch_max ''population_density'' real_facilities = 300 \<and>
   normalize_value ''population_density'' real_facilities stadium = 1"
proof -
  have m: "school \<in> set real_facilities" "stadium \<in> set real_facilities"
    by (simp_all add: real_facilities_def)
  have v: "raw_value ''risk_level'' school = Some 1"
    "raw_value ''population_density'' stadium = Some 300"
    by code_simp+
  have r: "batch_min ''risk_level'' real_facilities = 1"
    "batch_max ''risk_level'' real_facilities = 5"
    by code_simp+
  have p: "batch_min ''population_density'' real_facilities = 100"
    "batch_max ''population_density'' real_facilities = 300"
    by code_simp+
  have "normalize_value ''risk_level'' real_facilities school = 1"
    using direction_policy[OF m(1) v(1)] r by simp
  moreover have "normalize_value ''population_density'' real_facilities stadium = 1"
    using direction_policy[OF m(2) v(2)] p by simp
  ultimately show ?thesis using m v r p by simp
qed

text \<open>
  C7. A site without a raw value for a criterion gets 0.5 for it; when the minimum and the
  maximum of the non-missing values of a criterion coincide, every site of the batch gets 0.5
  for it; dropping the sites without a value from the batch changes no normalized value, so
  a missing value takes no part in the minimum and maximum; and the evaluation of a non-empty
  batch with valid weights returns a table with these normalized columns, without error.
\<close>

theorem neutral_imputation:
  "(raw_value c s = None \<longrightarrow> normalize_value c batch s = 1 / 2) \<and>
   (s \<in> set batch \<and> batch_min c batch = batch_max c batch \<longrightarrow> normalize_value c batch s = 1 / 2) \<and>
   normalize_value c (filter (\<lambda>t. raw_value c t \<noteq> None) batch) s = normalize_value c batch s \<and>
   (batch \<noteq> [] \<and> validate w = Inr w \<longrightarrow>
      (\<exists>r. evaluate batch w = Inr r \<and> length r = length batch \<and>
           (\<forall>i<length batch.
              normalized (r ! i) =
                map (\<lambda>k. (k, normalize_value k batch (batch ! i))) (map fst w))))"
proof -
  have 1: "normalize_value c batch s = 1 / 2" if "s \<in> set batch" "batch_min c batch = batch_max c batch"
  proof (cases "raw_value c s")
    case None
    then show ?thesis by (rule normalize_value_missing)
  next
    case (Some v)
    then show ?thesis using that by (simp add: normalize_value_present)
  qed
  have 2: "\<exists>r. evaluate batch w = Inr r \<and> length r = length batch \<and>
           (\<forall>i<length batch.
              normalized (r ! i) =
                map (\<lambda>k. (k, normalize_value k batch (batch ! i))) (map fst w))"
    if "batch \<noteq> []" "validate w = Inr w"
    using evaluate_Inr[OF that(2,1)] by blast
  show ?thesis
  proof (intro conjI impI)
    show "normalize_value c batch s = 1 / 2" if "raw_value c s = None"
      using that by (rule normalize_value_missing)
    show "normalize_value c batch s = 1 / 2"
      if "s \<in> set batch \<and> batch_min c batch = batch_max c batch"
      using that 1 by blast
    show "normalize_value c (filter (\<lambda>t. raw_value c t \<noteq> None) batch) s =
          normalize_value c batch s"
      by (rule normalize_value_filter)
    show "\<exists>r. evaluate batch w = Inr r \<and> length r = length batch \<and>
           (\<forall>i<length batch.
              normalized (r ! i) =
                map (\<lambda>k. (k, normalize_value k batch (batch ! i))) (map fst w))"
      if "batch \<noteq> [] \<and> validate w = Inr w"
      using that 2 by blast
  qed
qed

theorem neutral_imputation_witness:
  "raw_value ''accessibility'' school = None \<and>
   normalize_value ''accessibility'' real_facilities school = 1 / 2 \<and>
   normalize_value ''accessibility'' real_facilities hall = 0 \<and>
   normalize_value ''accessibility'' [hall, stadium] hall = 0 \<and>
   hall \<in> set real_facilities \<and>
   batch_min ''facility_capacity'' real_facilities =
     batch_max ''facility_capacity'' real_facilities \<and>
   normalize_value ''facility_capacity'' real_facilities hall = 1 / 2 \<and>
   real_facilities \<noteq> [] \<and> validate default_weights = Inr default_weights \<and>
   (\<exists>r. evaluate real_facilities default_weights = Inr r \<and>
        length r = length real_facilities \<and>
        (\<forall>i<length real_facilities.
           normalized (r ! i) =
             map (\<lambda>k. (k, normalize_value k real_facilities (real_facilities ! i)))
               (map fst default_weights)))"
proof -
  have a: "raw_value ''accessibility'' school = None" by code_simp
  have b: "hall \<in> set real_facilities \<and>
           batch_min ''facility_capacity'' real_facilities =
             batch_max ''facility_capacity'' real_facilities"
  proof
    show "hall \<in> set real_facilities" by (simp add: real_facilities_def)
    show "batch_min ''facility_capacity'' real_facilities =
            batch_max ''facility_capacity'' real_facilities"
      by code_simp
  qed
  have c: "real_facilities \<noteq> [] \<and> validate default_weights = Inr default_weights"
  proof
    show "real_facilities \<noteq> []" by (simp add: real_facilities_def)
    show "validate default_weights = Inr default_weights" by code_simp
  qed
  have d: "normalize_value ''accessibility'' real_facilities hall = 0"
    "normalize_value ''accessibility'' [hall, stadium] hall = 0"
    by code_simp+
  note t = neutral_imputation[of "''accessibility''" school real_facilities default_weights]
    neutral_imputation[of "''facility_capacity''" hall real_facilities default_weights]
  show ?thesis using t a b c d by blast
qed

text \<open>
  C8, as the code has it. The export button writes the stored evaluation with
  \<open>to_csv(index=False)\<close>: the first line names the identity columns, the five raw criteria,
  one \<open>normalized_\<close> column for each weighted criterion, and \<open>total_score\<close>, \<open>rank\<close> and
  \<open>recommended\<close>; there is one row for each site of the batch, in the order of the batch,
  with its raw attributes unchanged. When every cell of the table is one that \<open>read_csv\<close>
  gives back (a name that is not a missing-value marker, a number or a boolean, and numbers
  whose text is read as the same number), reading the exported text gives the evaluated
  table itself, with no evaluation. The keys of the weights are distinct, as those of a
  Python dictionary are.
\<close>

theorem export_reimport_identity:
  assumes "evaluate raw w = Inr r" and "distinct (map fst w)"
    and "cells_read_back nt (to_frame r)"
    and "evaluated_sites_for_view ss = Some r"
  shows "frame_columns (to_frame r) =
           [''id'', ''name'', ''latitude'', ''longitude''] @
           [''population_density'', ''accessibility'', ''risk_level'', ''facility_capacity'',
            ''service_coverage''] @
           map ((@) ''normalized_'') (map fst w) @
           [''total_score'', ''rank'', ''recommended''] \<and>
         frame_rows (to_frame r) = map evaluated_row r \<and> length r = length raw \<and>
         (\<forall>i<length raw. raw_site (r ! i) = raw ! i) \<and>
         (\<exists>text. export_evaluation_results nt ss = Some text \<and>
                 read_csv nt text = Inr (to_frame r))"
proof -
  from assms(3) have rb:
    "\<forall>row \<in> set (frame_rows (to_frame r)). \<forall>c \<in> set row. reads_back nt c"
    by (simp only: cells_read_back_def)
  from to_frame_safe[OF assms(1,2) rb] have
    safe: "csv_safe nt (evaluated_types r) (to_frame r)" and
    cols: "frame_columns (to_frame r) =
           [''id'', ''name'', ''latitude'', ''longitude''] @ criterion_names @
           map ((@) ''normalized_'') (map fst w) @ [''total_score'', ''rank'', ''recommended'']"
    by blast+
  from assms(1) obtain wv where v: "validate w = Inr wv" and ne: "raw \<noteq> []"
    by (auto simp: evaluate_def split: sum.splits if_splits)
  then have v': "validate w = Inr w" using validate_Inr by blast
  from evaluate_Inr[OF v' ne] assms(1) have len: "length r = length raw"
    and rs: "\<forall>i<length raw. raw_site (r ! i) = raw ! i"
    by auto
  have ex: "export_evaluation_results nt ss = Some (to_csv nt (to_frame r))"
    by (simp add: export_evaluation_results_def assms(4))
  have rd: "read_csv nt (to_csv nt (to_frame r)) = Inr (to_frame r)"
    by (rule read_csv_to_csv[OF safe])
  have rows: "frame_rows (to_frame r) = map evaluated_row r" by (simp add: to_frame_def)
  from cols have cols': "frame_columns (to_frame r) =
           [''id'', ''name'', ''latitude'', ''longitude''] @
           [''population_density'', ''accessibility'', ''risk_level'', ''facility_capacity'',
            ''service_coverage''] @
           map ((@) ''normalized_'') (map fst w) @
           [''total_score'', ''rank'', ''recommended'']"
    by (simp only: criterion_names_def)
  from cols' rows len rs ex rd show ?thesis by blast
qed

theorem export_reimport_identity_witness:
  "evaluate real_facilities default_weights = Inr evaluated_example \<and>
   distinct (map fst default_weights) \<and>
   cells_read_back example_numbers (to_frame evaluated_example) \<and>
   evaluated_sites_for_view (snd first_run) = Some evaluated_example \<and>
   length evaluated_example = 3 \<and>
   column_cells 1 (to_frame evaluated_example) =
     [TextCell ''Hall'', TextCell ''School'', TextCell ''Stadium''] \<and>
   column_cells 5 (to_frame evaluated_example) = [FloatCell 3, MissingCell, FloatCell 9] \<and>
   export_evaluation_results example_numbers (snd first_run) =
     Some (to_csv example_numbers (to_frame evaluated_example)) \<and>
   read_csv example_numbers (to_csv example_numbers (to_frame evaluated_example)) =
     Inr (to_frame evaluated_example)"
proof -
  have e: "evaluate real_facilities default_weights = Inr evaluated_example" by code_simp
  have d: "distinct (map fst default_weights)" by code_simp
  have c: "cells_read_back example_numbers (to_frame evaluated_example)" by code_simp
  have s: "evaluated_sites_for_view (snd first_run) = Some evaluated_example" by code_simp
  have l: "length evaluated_example = 3" by code_simp
  have n: "column_cells 1 (to_frame evaluated_example) =
     [TextCell ''Hall'', TextCell ''School'', TextCell ''Stadium'']" by code_simp
  have m: "column_cells 5 (to_frame evaluated_example) = [FloatCell 3, MissingCell, FloatCell 9]"
    by code_simp
  have x: "export_evaluation_results example_numbers (snd first_run) =
     Some (to_csv example_numbers (to_frame evaluated_example))"
    by (simp add: export_evaluation_results_def s)
  from export_reimport_identity[OF e d c s] obtain csv where
    t: "export_evaluation_results example_numbers (snd first_run) = Some csv"
       "read_csv example_numbers csv = Inr (to_frame evaluated_example)"
    by blast
  from t(1) x have "csv = to_csv example_numbers (to_frame evaluated_example)" by simp
  with t(2) have r: "read_csv example_numbers (to_csv example_numbers (to_frame evaluated_example)) =
     Inr (to_frame evaluated_example)" by simp
  show ?thesis
    apply (intro conjI)
    apply (rule e) apply (rule d) apply (rule c) apply (rule s) apply (rule l) apply (rule n)
    apply (rule m) apply (rule x) apply (rule r)
    done
qed

text \<open>
  C8, as stated, fails. A site named \<open>N/A\<close> is evaluated and stored by a run of the view;
  the export writes its name as it is, and \<open>read_csv\<close>, with its default missing-value
  markers, reads a missing value in its place: the table that comes back is the evaluated
  table with this one cell lost.
\<close>

theorem reimport_loses_name:
  "displayed (fst unnamed_run) = Some unnamed_example \<and>
   evaluate unnamed_facilities default_weights = Inr unnamed_example \<and>
   column_cells 1 (to_frame unnamed_example) =
     [TextCell ''N/A'', TextCell ''School'', TextCell ''Stadium''] \<and>
   export_evaluation_results example_numbers (snd unnamed_run) =
     Some (to_csv example_numbers (to_frame unnamed_example)) \<and>
   read_csv example_numbers (to_csv example_numbers (to_frame unnamed_example)) =
     Inr ((to_frame unnamed_example)
            \<lparr>frame_rows :=
               (frame_rows (to_frame unnamed_example))
                 [0 := (frame_rows (to_frame unnamed_example) ! 0)[1 := MissingCell]]\<rparr>) \<and>
   read_csv example_numbers (to_csv example_numbers (to_frame unnamed_example)) \<noteq>
     Inr (to_frame unnamed_example)"
  by code_simp

text \<open>
  C9. With no weight stored in the session and the sliders left alone, the weight vector is
  population density 0.25, accessibility 0.20, risk level 0.15, facility capacity 0.20 and
  service coverage 0.20, and the run stores exactly these in the session.
\<close>

theorem default_weight_vector:
  assumes "weight_fields ss = [None, None, None, None, None]"
    and "pop_density_pick ui = None" and "accessibility_pick ui = None"
    and "risk_level_pick ui = None" and "facility_capacity_pick ui = None"
    and "service_coverage_pick ui = None"
  shows "read_sliders ss ui =
           Inr [(''population_density'', 25 / 100), (''accessibility'', 20 / 100),
                (''risk_level'', 15 / 100), (''facility_capacity'', 20 / 100),
                (''service_coverage'', 20 / 100)] \<and>
         weight_fields (snd (site_evaluation_view env ui ss)) =
           [Some (25 / 100), Some (20 / 100), Some (15 / 100), Some (20 / 100), Some (20 / 100)]"
proof -
  have "read_sliders ss ui =
           Inr [(''population_density'', 25 / 100), (''accessibility'', 20 / 100),
                (''risk_level'', 15 / 100), (''facility_capacity'', 20 / 100),
                (''service_coverage'', 20 / 100)]"
    using assms by (simp add: read_sliders_def weight_fields_def session_get_def slider_def)
  then show ?thesis by (simp add: weight_fields_view)
qed

theorem default_weight_vector_witness:
  "read_sliders (empty_session :: (evaluated_site list, weight_dict) session_state)
     (untouched 0 False) =
     Inr [(''population_density'', 1 / 4), (''accessibility'', 1 / 5), (''risk_level'', 3 / 20),
          (''facility_capacity'', 1 / 5), (''service_coverage'', 1 / 5)] \<and>
   weight_fields (snd (site_evaluation_view example_env (untouched 0 False) empty_session)) =
     [Some (1 / 4), Some (1 / 5), Some (3 / 20), Some (1 / 5), Some (1 / 5)]"
  using default_weight_vector[of empty_session "untouched 0 False" example_env]
  by (simp add: empty_session_def untouched_def weight_fields_def)

text \<open>
  C10. In every session reached from the empty one by runs of the view, whatever the user
  does with the sliders, reading the sliders succeeds and gives a weight vector with exactly
  the five criterion keys and every value between 0 and 1; the validation accepts it, so its
  failure branch is not reached from the view.
\<close>

theorem slider_weights_always_valid:
  "\<exists>w. read_sliders (runs env uis empty_session) ui = Inr w \<and>
       map fst w = criterion_names \<and>
       (\<forall>v \<in> set (map snd w). 0 \<le> v \<and> v \<le> 1) \<and>
       validate w = Inr w"
proof -
  have "stored_weights_ok (runs env uis empty_session)"
    by (rule runs_keep_weights_ok[OF empty_session_ok])
  then obtain w where w: "read_sliders (runs env uis empty_session) ui = Inr w"
    using read_sliders_ok by blast
  from read_sliders_shape[OF w] read_sliders_valid[OF w] w show ?thesis
    by (auto simp: criterion_names_def)
qed

theorem slider_weights_always_valid_witness:
  "read_sliders (runs example_env [moved] empty_session) (untouched 0 False) =
     Inr [(''population_density'', 1 / 2), (''accessibility'', 1 / 5), (''risk_level'', 3 / 20),
          (''facility_capacity'', 1 / 5), (''service_coverage'', 1 / 5)] \<and>
   (\<exists>w. read_sliders (runs example_env [moved] empty_session) (untouched 0 False) = Inr w \<and>
        map fst w = criterion_names \<and>
        (\<forall>v \<in> set (map snd w). 0 \<le> v \<and> v \<le> 1) \<and>
        validate w = Inr w)"
proof -
  have "read_sliders (runs example_env [moved] empty_session) (untouched 0 False) =
     Inr [(''population_density'', 1 / 2), (''accessibility'', 1 / 5), (''risk_level'', 3 / 20),
          (''facility_capacity'', 1 / 5), (''service_coverage'', 1 / 5)]"
    by code_simp
  then show ?thesis
    using slider_weights_always_valid[of example_env "[moved]" "untouched 0 False"] by blast
qed

end
